theory Spec2Isabelle
  imports Main
begin

section \<open>Strings and characters\<close>

text \<open>
  A message is a \<^typ>\<open>string\<close>; one \<^typ>\<open>char\<close> stands for one code unit of the
  JavaScript string, with a value below 256. The three character predicates the regular
  expressions of the plugin use are written out for these code units: white space
  (\<^verbatim>\<open>\s\<close>: tab, line feed, vertical tab, form feed, carriage return, space and
  the no-break space), word characters (\<^verbatim>\<open>\w\<close>, which decides \<^verbatim>\<open>\b\<close>),
  and line terminators (for \<^verbatim>\<open>.\<close> and the multi-line \<^verbatim>\<open>$\<close>).
\<close>

definition is_space :: "char \<Rightarrow> bool" where
  "is_space c = (c \<in> set [CHR 0x09, CHR 0x0A, CHR 0x0B, CHR 0x0C, CHR 0x0D, CHR 0x20, CHR 0xA0])"

definition word_chars :: "char list" where
  "word_chars = ''abcdefghijklmnopqrstuvwxyzABCDEFGHIJKLMNOPQRSTUVWXYZ0123456789_''"

definition is_word_char :: "char \<Rightarrow> bool" where
  "is_word_char c = (c \<in> set word_chars)"

definition is_line_terminator :: "char \<Rightarrow> bool" where
  "is_line_terminator c = (c = CHR 0x0A \<or> c = CHR 0x0D)"

text \<open>
  With the flag \<^verbatim>\<open>i\<close> two code units are compared after canonicalisation, which is
  the upper-case mapping where that is again a single code unit. Below 256 it moves
  \<^verbatim>\<open>a-z\<close> and the accented lower-case letters \<^verbatim>\<open>0xE0-0xFE\<close> (without the
  division sign \<^verbatim>\<open>0xF7\<close>) onto their capitals. The micro sign and \<^verbatim>\<open>0xFF\<close>
  have capitals above 255 that no other code unit below 256 shares, so they stay as they
  are here.
\<close>

definition case_table :: "(char \<times> char) list" where
  "case_table =
     zip ''abcdefghijklmnopqrstuvwxyz'' ''ABCDEFGHIJKLMNOPQRSTUVWXYZ'' @
     zip [CHR 0xE0, CHR 0xE1, CHR 0xE2, CHR 0xE3, CHR 0xE4, CHR 0xE5, CHR 0xE6, CHR 0xE7,
          CHR 0xE8, CHR 0xE9, CHR 0xEA, CHR 0xEB, CHR 0xEC, CHR 0xED, CHR 0xEE, CHR 0xEF,
          CHR 0xF0, CHR 0xF1, CHR 0xF2, CHR 0xF3, CHR 0xF4, CHR 0xF5, CHR 0xF6,
          CHR 0xF8, CHR 0xF9, CHR 0xFA, CHR 0xFB, CHR 0xFC, CHR 0xFD, CHR 0xFE]
         [CHR 0xC0, CHR 0xC1, CHR 0xC2, CHR 0xC3, CHR 0xC4, CHR 0xC5, CHR 0xC6, CHR 0xC7,
          CHR 0xC8, CHR 0xC9, CHR 0xCA, CHR 0xCB, CHR 0xCC, CHR 0xCD, CHR 0xCE, CHR 0xCF,
          CHR 0xD0, CHR 0xD1, CHR 0xD2, CHR 0xD3, CHR 0xD4, CHR 0xD5, CHR 0xD6,
          CHR 0xD8, CHR 0xD9, CHR 0xDA, CHR 0xDB, CHR 0xDC, CHR 0xDD, CHR 0xDE]"

definition canonicalize :: "char \<Rightarrow> char" where
  "canonicalize c = (case map_of case_table c of Some u \<Rightarrow> u | None \<Rightarrow> c)"

definition char_eq :: "bool \<Rightarrow> char \<Rightarrow> char \<Rightarrow> bool" where
  "char_eq ignoreCase a b = (if ignoreCase then canonicalize a = canonicalize b else a = b)"

section \<open>Regular expressions: a backtracking matcher\<close>

text \<open>
  The regular expressions of the source are literals of the language; their matcher is the
  one of the language definition. It is modelled for the constructs the source uses. A
  matcher state is the code unit before the current position (none at the start of the
  input) and the rest of the input. \<open>ms r ic s\<close> lists the states in which \<open>r\<close> can end
  when started in \<open>s\<close>, in the order in which backtracking tries them, so the head of the
  list is the match that is reported. Capture groups do not change which text matches and
  are left out; where the source reads a group, the pieces of the expression are matched
  one after another (\<open>ms_pieces\<close>, in the installer).
\<close>

type_synonym mstate = "char option \<times> string"

datatype regex =
    Lit string              \<comment> \<open>a run of literal characters\<close>
  | Cls "char list"         \<comment> \<open>\<^verbatim>\<open>[...]\<close>\<close>
  | NCls "char list"        \<comment> \<open>\<^verbatim>\<open>[^...]\<close>\<close>
  | Space                   \<comment> \<open>\<^verbatim>\<open>\s\<close>\<close>
  | AnyChar                 \<comment> \<open>\<^verbatim>\<open>[\s\S]\<close>\<close>
  | Dot                     \<comment> \<open>\<^verbatim>\<open>.\<close> without the flag \<^verbatim>\<open>s\<close>\<close>
  | WordB                   \<comment> \<open>\<^verbatim>\<open>\b\<close>\<close>
  | Bos                     \<comment> \<open>\<^verbatim>\<open>^\<close> without the flag \<^verbatim>\<open>m\<close>\<close>
  | EolM                    \<comment> \<open>\<^verbatim>\<open>$\<close> with the flag \<^verbatim>\<open>m\<close>\<close>
  | Seq regex regex
  | Alt regex regex
  | Opt regex               \<comment> \<open>\<^verbatim>\<open>r?\<close>\<close>
  | Star regex              \<comment> \<open>\<^verbatim>\<open>r*\<close>\<close>
  | Plus regex              \<comment> \<open>\<^verbatim>\<open>r+\<close>\<close>
  | LazyStar regex          \<comment> \<open>\<^verbatim>\<open>r*?\<close>\<close>

fun lit_match :: "bool \<Rightarrow> string \<Rightarrow> mstate \<Rightarrow> mstate list" where
  "lit_match ic [] s = [s]"
| "lit_match ic (c # cs) (p, []) = []"
| "lit_match ic (c # cs) (p, x # xs) =
     (if char_eq ic c x then lit_match ic cs (Some x, xs) else [])"

definition one_char :: "(char \<Rightarrow> bool) \<Rightarrow> mstate \<Rightarrow> mstate list" where
  "one_char P s = (case snd s of [] \<Rightarrow> [] | x # xs \<Rightarrow> if P x then [(Some x, xs)] else [])"

definition in_class :: "bool \<Rightarrow> char list \<Rightarrow> char \<Rightarrow> bool" where
  "in_class ic cs x = list_ex (\<lambda>a. char_eq ic a x) cs"

definition assertion :: "bool \<Rightarrow> mstate \<Rightarrow> mstate list" where
  "assertion b s = (if b then [s] else [])"

definition word_before :: "mstate \<Rightarrow> bool" where
  "word_before s = (case fst s of None \<Rightarrow> False | Some c \<Rightarrow> is_word_char c)"

definition word_after :: "mstate \<Rightarrow> bool" where
  "word_after s = (case snd s of [] \<Rightarrow> False | c # _ \<Rightarrow> is_word_char c)"

definition at_line_end :: "mstate \<Rightarrow> bool" where
  "at_line_end s = (case snd s of [] \<Rightarrow> True | c # _ \<Rightarrow> is_line_terminator c)"

text \<open>
  A quantified atom may not match the empty string in an iteration that is not required:
  such an iteration is rejected. Every accepted iteration therefore consumes input, and
  the number of code units left bounds the number of iterations.
\<close>

definition advanced :: "mstate \<Rightarrow> mstate \<Rightarrow> bool" where
  "advanced s s' = (length (snd s') < length (snd s))"

primrec iter_greedy :: "(mstate \<Rightarrow> mstate list) \<Rightarrow> nat \<Rightarrow> mstate \<Rightarrow> mstate list" where
  "iter_greedy step 0 s = [s]"
| "iter_greedy step (Suc n) s =
     concat (map (iter_greedy step n) (filter (advanced s) (step s))) @ [s]"

primrec iter_lazy :: "(mstate \<Rightarrow> mstate list) \<Rightarrow> nat \<Rightarrow> mstate \<Rightarrow> mstate list" where
  "iter_lazy step 0 s = [s]"
| "iter_lazy step (Suc n) s =
     s # concat (map (iter_lazy step n) (filter (advanced s) (step s)))"

primrec ms :: "regex \<Rightarrow> bool \<Rightarrow> mstate \<Rightarrow> mstate list" where
  "ms (Lit w) ic s = lit_match ic w s"
| "ms (Cls cs) ic s = one_char (in_class ic cs) s"
| "ms (NCls cs) ic s = one_char (\<lambda>x. \<not> in_class ic cs x) s"
| "ms Space ic s = one_char is_space s"
| "ms AnyChar ic s = one_char (\<lambda>x. True) s"
| "ms Dot ic s = one_char (\<lambda>x. \<not> is_line_terminator x) s"
| "ms WordB ic s = assertion (word_before s \<noteq> word_after s) s"
| "ms Bos ic s = assertion (fst s = None) s"
| "ms EolM ic s = assertion (at_line_end s) s"
| "ms (Seq a b) ic s = concat (map (ms b ic) (ms a ic s))"
| "ms (Alt a b) ic s = ms a ic s @ ms b ic s"
| "ms (Opt a) ic s = filter (advanced s) (ms a ic s) @ [s]"
| "ms (Star a) ic s = iter_greedy (ms a ic) (length (snd s)) s"
| "ms (Plus a) ic s = concat (map (\<lambda>s'. iter_greedy (ms a ic) (length (snd s')) s') (ms a ic s))"
| "ms (LazyStar a) ic s = iter_lazy (ms a ic) (length (snd s)) s"

fun seq :: "regex list \<Rightarrow> regex" where
  "seq [] = Lit []"
| "seq [r] = r"
| "seq (r # rs) = Seq r (seq rs)"

fun alts :: "regex list \<Rightarrow> regex" where
  "alts [] = NCls []"
| "alts [r] = r"
| "alts (r # rs) = Alt r (alts rs)"

text \<open>
  \<open>exec_from r ic p s\<close> is \<^verbatim>\<open>s.match(r)\<close> for a regular expression without the
  flag \<^verbatim>\<open>g\<close>: the start positions are tried from left to right, and the text of the
  first match is returned (element 0 of the match array), or nothing (\<^verbatim>\<open>null\<close>).
\<close>

fun exec_from :: "regex \<Rightarrow> bool \<Rightarrow> char option \<Rightarrow> string \<Rightarrow> string option" where
  "exec_from r ic p [] =
     (case ms r ic (p, []) of [] \<Rightarrow> None | s' # _ \<Rightarrow> Some [])"
| "exec_from r ic p (c # cs) =
     (case ms r ic (p, c # cs) of
        [] \<Rightarrow> exec_from r ic (Some c) cs
      | s' # _ \<Rightarrow> Some (take (length (c # cs) - length (snd s')) (c # cs)))"

definition match_i :: "regex \<Rightarrow> string \<Rightarrow> string option" where
  "match_i r s = exec_from r True None s"

text \<open>
  \<open>remove_all r ic p s\<close> is \<^verbatim>\<open>s.replace(r, "")\<close> for a regular expression with the
  flag \<^verbatim>\<open>g\<close>: every match, found from left to right behind the previous one, is
  deleted. After an empty match the search moves on by one code unit, which is kept.
\<close>

function remove_all :: "regex \<Rightarrow> bool \<Rightarrow> char option \<Rightarrow> string \<Rightarrow> string" where
  "remove_all r ic p [] = []"
| "remove_all r ic p (c # cs) =
     (case ms r ic (p, c # cs) of
        [] \<Rightarrow> c # remove_all r ic (Some c) cs
      | s' # _ \<Rightarrow>
          if length (snd s') < length (c # cs) then remove_all r ic (fst s') (snd s')
          else c # remove_all r ic (Some c) cs)"
  by pat_completeness auto
termination
  by (relation "measure (\<lambda>(r, ic, p, s). length s)") auto

declare remove_all.simps(2) [simp del]

section \<open>The pattern tables\<close>

datatype match_type = search | research

record KeywordMatch =
  type :: match_type
  matchedText :: string

definition SEARCH_PATTERNS :: "regex list" where
  "SEARCH_PATTERNS = [
     seq [WordB, Lit ''search'', Plus Space, Opt (Seq (Lit ''the'') (Plus Space)),
          alts [Lit ''web'', Lit ''internet'', Lit ''online''], WordB],
     seq [WordB, Lit ''web'', Plus Space, Lit ''search'', WordB],
     seq [WordB, Lit ''look'', Plus Space, Lit ''up'', WordB],
     seq [WordB, Lit ''find'', Plus Space, Opt (Seq (Lit ''me'') (Plus Space)),
          alts [Lit ''information'', Lit ''info'', Lit ''details''], Plus Space,
          alts [Lit ''about'', Lit ''on'', Lit ''for''], WordB],
     seq [WordB, Lit ''what'', alts [Lit [CHR 0x27, CHR ''s''], Seq (Plus Space) (Lit ''is'')],
          Plus Space, Opt (Seq (Lit ''the'') (Plus Space)),
          alts [Lit ''latest'', Lit ''current'', Lit ''recent''], WordB],

     seq [WordB, Lit ''research'', WordB],
     seq [WordB, Lit ''investigate'', WordB],
     seq [WordB, Lit ''find'', Plus Space, Lit ''out'', WordB],

     seq [WordB, alts [Lit ''latest'', Lit ''recent'', Lit ''current''], Plus Space,
          alts [Lit ''news'', Lit ''updates'', Lit ''developments''], WordB],
     seq [WordB, Lit ''what'', alts [Lit [CHR 0x27, CHR ''s''], Seq (Plus Space) (Lit ''is'')],
          Plus Space, Lit ''happening'', WordB],
     seq [WordB, Lit ''breaking'', Plus Space, Lit ''news'', WordB],

     seq [WordB, Lit ''find'', Plus Space, Opt (Seq (Lit ''the'') (Plus Space)),
          Lit ''doc'', Opt (Lit ''s''), WordB],
     seq [WordB, Lit ''documentation'', Plus Space, Lit ''for'', WordB],
     seq [WordB, Lit ''how'', Plus Space, Lit ''do'', Plus Space,
          alts [Lit ''I'', Lit ''you'', Lit ''we''], WordB],
     seq [WordB, Lit ''what'', Plus Space, Lit ''is'', Plus Space, Lit ''the'', Plus Space,
          Lit ''best'', Plus Space, Lit ''way'', WordB],

     seq [WordB, Lit ''who'', Plus Space,
          alts [Lit ''is'', Lit ''was'', Lit ''are'', Lit ''were''], WordB],
     seq [WordB, Lit ''when'', Plus Space,
          alts [Lit ''did'', Lit ''was'', Lit ''is'', Lit ''will''], WordB],
     seq [WordB, Lit ''where'', Plus Space,
          alts [Lit ''is'', Lit ''are'', Lit ''can'', Lit ''do''], WordB],
     seq [WordB, Lit ''how'', Plus Space,
          alts [Lit ''much'', Lit ''many'', Lit ''long'', Lit ''far''], WordB],

     seq [WordB, Lit ''compare'', WordB],
     seq [WordB, Lit ''alternative'', Opt (Lit ''s''), Plus Space, Lit ''to'', WordB],
     seq [WordB, Lit ''vs'', Opt (Lit ''.''), WordB],
     seq [WordB, Lit ''versus'', WordB],

     seq [WordB, Lit ''perplexity'', WordB],
     seq [WordB, Lit ''ask'', Plus Space, Lit ''perplexity'', WordB],
     seq [WordB, Lit ''use'', Plus Space, Lit ''perplexity'', WordB]]"

definition RESEARCH_PATTERNS :: "regex list" where
  "RESEARCH_PATTERNS = [
     seq [WordB, Lit ''deep'', Plus Space,
          alts [Lit ''dive'', Lit ''research'', Lit ''analysis''], WordB],
     seq [WordB, Lit ''comprehensive'', Plus Space,
          alts [Lit ''search'', Lit ''research'', Lit ''analysis''], WordB],
     seq [WordB, Lit ''thorough'', Opt (Lit ''ly''), Plus Space,
          alts [Lit ''research'', Lit ''investigate'', Lit ''search''], WordB],
     seq [WordB, Lit ''in'', Cls ''- '', Lit ''depth'', Plus Space,
          alts [Lit ''research'', Lit ''analysis''], WordB],
     seq [WordB, Lit ''detailed'', Plus Space,
          alts [Lit ''research'', Lit ''analysis'', Lit ''report''], WordB]]"

text \<open>The two expressions of \<^verbatim>\<open>removeCodeBlocks\<close>, both with the flag \<^verbatim>\<open>g\<close>.\<close>

definition fenced_block :: regex where
  "fenced_block = seq [Lit ''```'', LazyStar AnyChar, Lit ''```'']"

definition inline_code :: regex where
  "inline_code = seq [Lit ''`'', Plus (NCls ''`''), Lit ''`'']"

definition removeCodeBlocks :: "string \<Rightarrow> string" where
  "removeCodeBlocks text =
     (let result = remove_all fenced_block False None text
      in remove_all inline_code False None result)"


section \<open>Configuration\<close>

text \<open>
  \<open>PerplexityConfig\<close> is the value \<^verbatim>\<open>config\<close> that \<^verbatim>\<open>loadConfig\<close> builds once,
  when the module is loaded; every field is set there. \<open>FileConfig\<close> is what the
  configuration file parses to, every field optional. The environment is a map from
  variable names to values.
\<close>

record KeywordsConfig =
  enabled :: bool
  customPatterns :: "string list"

record PerplexityConfig =
  apiKey :: string
  mcpUrl :: string
  model :: string
  config_keywords :: KeywordsConfig

record FileKeywords =
  file_enabled :: "bool option"
  file_customPatterns :: "string list option"

record FileConfig =
  file_apiKey :: "string option"
  file_mcpUrl :: "string option"
  file_model :: "string option"
  file_keywords :: "FileKeywords option"

type_synonym environment = "string \<rightharpoonup> string"
type_synonym filesystem = "string \<rightharpoonup> string"

datatype console_line = Log "string list" | Warn "string list" | Error "string list"
type_synonym console = "console_line list"

text \<open>\<^verbatim>\<open>a || b\<close> on optional strings: the left operand unless it is undefined or empty.\<close>

definition truthy :: "string option \<Rightarrow> bool" where
  "truthy a = (case a of None \<Rightarrow> False | Some s \<Rightarrow> s \<noteq> [])"

definition js_or :: "string option \<Rightarrow> string option \<Rightarrow> string option" where
  "js_or a b = (if truthy a then a else b)"

definition or_default :: "string option \<Rightarrow> string \<Rightarrow> string" where
  "or_default a d = (case a of None \<Rightarrow> d | Some s \<Rightarrow> if s \<noteq> [] then s else d)"

definition CONFIG_FILE :: string where "CONFIG_FILE = ''perplexity.json''"
definition CONFIG_FILE_JSONC :: string where "CONFIG_FILE_JSONC = ''perplexity.jsonc''"

definition path_join :: "string \<Rightarrow> string \<Rightarrow> string" where
  "path_join dir name = dir @ ''/'' @ name"

definition stripJsonComments :: "string \<Rightarrow> string" where
  "stripJsonComments jsonString =
     (let result = remove_all (seq [Lit ''//'', Star Dot, EolM]) False None jsonString
      in remove_all (seq [Lit ''/*'', LazyStar AnyChar, Lit ''*/'']) False None result)"

definition empty_file_config :: FileConfig where
  "empty_file_config =
     \<lparr>file_apiKey = None, file_mcpUrl = None, file_model = None, file_keywords = None\<rparr>"

text \<open>
  \<open>loadConfigFile\<close> takes the directory \<^verbatim>\<open>CONFIG_DIR\<close>, the file system and
  \<^verbatim>\<open>JSON.parse\<close> (nothing where it throws). A file that does not parse is reported on
  the console and read as the empty configuration.
\<close>

definition loadConfigFile ::
  "string \<Rightarrow> (string \<Rightarrow> FileConfig option) \<Rightarrow> filesystem \<Rightarrow> console \<Rightarrow> FileConfig \<times> console" where
  "loadConfigFile CONFIG_DIR JSON_parse fs con =
     (let jsonPath = path_join CONFIG_DIR CONFIG_FILE;
          jsoncPath = path_join CONFIG_DIR CONFIG_FILE_JSONC;
          configPath = (if fs jsonPath \<noteq> None then Some jsonPath
                        else if fs jsoncPath \<noteq> None then Some jsoncPath else None)
      in case configPath of
           None \<Rightarrow> (empty_file_config, con)
         | Some path \<Rightarrow>
             (case fs path of
                None \<Rightarrow> (empty_file_config, con)
              | Some content \<Rightarrow>
                  (case JSON_parse (stripJsonComments content) of
                     Some c \<Rightarrow> (c, con)
                   | None \<Rightarrow>
                       (empty_file_config,
                        con @ [Error [''Error reading Perplexity config from '' @ path @ '':'']]))))"

definition loadConfig :: "FileConfig \<Rightarrow> environment \<Rightarrow> PerplexityConfig" where
  "loadConfig fileConfig env =
     \<lparr>apiKey = or_default (js_or (file_apiKey fileConfig) (env ''PERPLEXITY_API_KEY'')) [],
      mcpUrl = or_default (js_or (file_mcpUrl fileConfig) (env ''PERPLEXITY_MCP_URL''))
                 ''stdio://perplexity-mcp'',
      model = or_default (js_or (file_model fileConfig) (env ''PERPLEXITY_MODEL'')) ''sonar'',
      config_keywords =
        \<lparr>enabled =
           (case file_keywords fileConfig of
              None \<Rightarrow> True
            | Some k \<Rightarrow> (case file_enabled k of None \<Rightarrow> True | Some b \<Rightarrow> b)),
         customPatterns =
           (case file_keywords fileConfig of
              None \<Rightarrow> []
            | Some k \<Rightarrow> (case file_customPatterns k of None \<Rightarrow> [] | Some ps \<Rightarrow> ps))\<rparr>\<rparr>"

text \<open>The module constant \<^verbatim>\<open>config\<close>: the configuration file is read and the
  configuration built once, when the module is loaded.\<close>

definition module_config ::
  "string \<Rightarrow> (string \<Rightarrow> FileConfig option) \<Rightarrow> filesystem \<Rightarrow> environment \<Rightarrow> PerplexityConfig" where
  "module_config CONFIG_DIR JSON_parse fs env =
     loadConfig (fst (loadConfigFile CONFIG_DIR JSON_parse fs [])) env"

definition isConfigured :: "PerplexityConfig \<Rightarrow> bool" where
  "isConfigured config = (apiKey config \<noteq> [])"

section \<open>The keyword detector\<close>

text \<open>
  A compiled regular expression is used through \<^verbatim>\<open>message.match(pattern)\<close> only, so
  it is modelled by that function: the text of the first match, or nothing. The built-in
  patterns are the literals above; a custom pattern is compiled by the constructor
  \<^verbatim>\<open>new RegExp(pattern, "i")\<close>, which is a parameter of the model (nothing where it
  throws a syntax error).
\<close>

type_synonym RegExp = "string \<Rightarrow> string option"

definition invalid_pattern_warning :: "string \<Rightarrow> console_line" where
  "invalid_pattern_warning pattern = Warn [''Invalid custom keyword pattern: '' @ pattern]"

fun compile_each :: "(string \<Rightarrow> RegExp option) \<Rightarrow> string list \<Rightarrow> console \<Rightarrow> RegExp option list \<times> console" where
  "compile_each new_RegExp [] con = ([], con)"
| "compile_each new_RegExp (pattern # rest) con =
     (case new_RegExp pattern of
        Some r \<Rightarrow>
          (let (rs, con') = compile_each new_RegExp rest con in (Some r # rs, con'))
      | None \<Rightarrow>
          (let (rs, con') =
                 compile_each new_RegExp rest (con @ [invalid_pattern_warning pattern])
           in (None # rs, con')))"

fun non_null :: "'a option list \<Rightarrow> 'a list" where
  "non_null [] = []"
| "non_null (None # xs) = non_null xs"
| "non_null (Some x # xs) = x # non_null xs"

definition compileCustomPatterns ::
  "(string \<Rightarrow> RegExp option) \<Rightarrow> PerplexityConfig \<Rightarrow> console \<Rightarrow> RegExp list \<times> console" where
  "compileCustomPatterns new_RegExp config con =
     (let (rs, con') = compile_each new_RegExp (customPatterns (config_keywords config)) con
      in (non_null rs, con'))"

text \<open>One \<^verbatim>\<open>for\<close> loop of \<^verbatim>\<open>detectKeywords\<close>: the first pattern that matches returns.\<close>

fun scan_patterns :: "match_type \<Rightarrow> RegExp list \<Rightarrow> string \<Rightarrow> KeywordMatch option" where
  "scan_patterns t [] cleanedMessage = None"
| "scan_patterns t (pattern # rest) cleanedMessage =
     (case pattern cleanedMessage of
        Some m \<Rightarrow> Some \<lparr>type = t, matchedText = m\<rparr>
      | None \<Rightarrow> scan_patterns t rest cleanedMessage)"

definition detectKeywords ::
  "(string \<Rightarrow> RegExp option) \<Rightarrow> PerplexityConfig \<Rightarrow> string \<Rightarrow> console
     \<Rightarrow> KeywordMatch option \<times> console" where
  "detectKeywords new_RegExp config message con =
     (if \<not> enabled (config_keywords config) then (None, con)
      else
        let cleanedMessage = removeCodeBlocks message;
            (customs, con') = compileCustomPatterns new_RegExp config con
        in case scan_patterns research (map match_i RESEARCH_PATTERNS) cleanedMessage of
             Some m \<Rightarrow> (Some m, con')
           | None \<Rightarrow>
               (case scan_patterns search customs cleanedMessage of
                  Some m \<Rightarrow> (Some m, con')
                | None \<Rightarrow>
                    (scan_patterns search (map match_i SEARCH_PATTERNS) cleanedMessage, con')))"


section \<open>The nudge texts\<close>

fun join :: "string \<Rightarrow> string list \<Rightarrow> string" where
  "join sep [] = []"
| "join sep [x] = x"
| "join sep (x # xs) = x @ sep @ join sep xs"

definition getSearchNudge :: string where
  "getSearchNudge = join ''\<newline>''
     [''<perplexity-hint>'',
      ''The user's message suggests they want to search the web for information.'',
      '''',
      ''You have access to the Perplexity MCP server with the following tool:'',
      ''- **perplexity_search_web**: Search the web using Perplexity AI'',
      ''  - Parameters:'',
      ''    - query (required): The search query'',
      ''    - recency (optional): Filter by \"day\", \"week\", \"month\", or \"year\"'',
      '''',
      ''Use this tool to find current, accurate information from the web. Perplexity provides AI-powered search with citations.'',
      '''',
      ''Example usage:'',
      ''- For recent news: use recency=\"day\" or recency=\"week\"'',
      ''- For general information: use recency=\"month\" (default)'',
      ''- For historical context: use recency=\"year\"'',
      ''</perplexity-hint>'']"

definition getResearchNudge :: string where
  "getResearchNudge = join ''\<newline>''
     [''<perplexity-hint>'',
      ''The user wants comprehensive research on a topic.'',
      '''',
      ''You have access to the Perplexity MCP server with the **perplexity_search_web** tool.'',
      '''',
      ''For in-depth research:'',
      ''1. Break the topic into multiple focused queries'',
      ''2. Use different recency filters to get both recent and historical context'',
      ''3. Cross-reference information from multiple searches'',
      ''4. Synthesize findings into a comprehensive response with citations'',
      '''',
      ''The Perplexity API returns results with citations - always include these in your response to support your findings.'',
      ''</perplexity-hint>'']"

section \<open>The message hook\<close>

text \<open>
  A segment of a message (\<^verbatim>\<open>Part\<close>) with the fields the hook reads or writes:
  \<^verbatim>\<open>id\<close>, \<^verbatim>\<open>sessionID\<close>, \<^verbatim>\<open>messageID\<close>, \<^verbatim>\<open>type\<close>, \<^verbatim>\<open>text\<close> and
  \<^verbatim>\<open>synthetic\<close>. The hook receives the session identifier in its input and, in its
  output, the identifier of the message and the list of segments, to which it may append.
\<close>

record Part =
  part_id :: string
  part_sessionID :: string
  part_messageID :: string
  part_type :: string
  part_text :: string
  part_synthetic :: bool

record HookInput =
  input_sessionID :: string

record HookOutput =
  output_message_id :: string
  parts :: "Part list"

datatype js_error = JsError string

datatype 'a outcome = Returned 'a | Thrown js_error

text \<open>\<^verbatim>\<open>debug\<close> of the logger writes to the console only when \<^verbatim>\<open>PERPLEXITY_DEBUG\<close> is
  \<^verbatim>\<open>"true"\<close>. The objects passed after the message are left out of the console line,
  except the text of a caught error.\<close>

definition DEBUG_of :: "environment \<Rightarrow> bool" where
  "DEBUG_of env = (env ''PERPLEXITY_DEBUG'' = Some ''true'')"

definition debug :: "bool \<Rightarrow> string list \<Rightarrow> console \<Rightarrow> console" where
  "debug DEBUG args con = (if DEBUG then con @ [Log (''[perplexity-opencode]'' # args)] else con)"

definition trim :: "string \<Rightarrow> string" where
  "trim s = rev (dropWhile is_space (rev (dropWhile is_space s)))"

definition type_name :: "match_type \<Rightarrow> string" where
  "type_name t = (case t of search \<Rightarrow> ''search'' | research \<Rightarrow> ''research'')"

definition digit_char :: "nat \<Rightarrow> char" where
  "digit_char d = ''0123456789'' ! d"

fun show_nat :: "nat \<Rightarrow> string" where
  "show_nat n = (if n < 10 then [digit_char n] else show_nat (n div 10) @ [digit_char (n mod 10)])"

declare show_nat.simps [simp del]

definition error_string :: "js_error \<Rightarrow> string" where
  "error_string e = (case e of JsError s \<Rightarrow> s)"

definition nudge_text :: "KeywordMatch \<Rightarrow> string" where
  "nudge_text match = (if type match = research then getResearchNudge else getSearchNudge)"

definition nudge_part :: "KeywordMatch \<Rightarrow> nat \<Rightarrow> HookInput \<Rightarrow> HookOutput \<Rightarrow> Part" where
  "nudge_part match now input output =
     \<lparr>part_id = ''perplexity-'' @ type_name (type match) @ ''-nudge-'' @ show_nat now,
      part_sessionID = input_sessionID input,
      part_messageID = output_message_id output,
      part_type = ''text'',
      part_text = nudge_text match,
      part_synthetic = True\<rparr>"

text \<open>
  The body of the \<^verbatim>\<open>try\<close> block. The call of the detector is a parameter, so that a
  call that throws can be stated: it returns a match, nothing, or the error thrown, and
  the console it leaves. \<open>now\<close> is the reading of \<^verbatim>\<open>Date.now()\<close> that goes into the
  identifier of the new segment.
\<close>

type_synonym detector = "string \<Rightarrow> console \<Rightarrow> KeywordMatch option outcome \<times> console"

definition chat_message_try ::
  "detector \<Rightarrow> bool \<Rightarrow> nat \<Rightarrow> HookInput \<Rightarrow> HookOutput \<Rightarrow> console
     \<Rightarrow> unit outcome \<times> HookOutput \<times> console" where
  "chat_message_try detect DEBUG now input output con =
     (let textParts = filter (\<lambda>p. part_type p = ''text'') (parts output)
      in if textParts = [] then
           (Returned (), output, debug DEBUG [''chat.message: no text parts found''] con)
         else
           let userMessage = join ''\<newline>'' (map part_text textParts)
           in if trim userMessage = [] then
                (Returned (), output, debug DEBUG [''chat.message: empty message, skipping''] con)
              else
                (case detect userMessage (debug DEBUG [''chat.message: processing''] con) of
                   (Thrown e, con') \<Rightarrow> (Thrown e, output, con')
                 | (Returned None, con') \<Rightarrow> (Returned (), output, con')
                 | (Returned (Some match), con') \<Rightarrow>
                     (Returned (),
                      output\<lparr>parts := parts output @ [nudge_part match now input output]\<rparr>,
                      debug DEBUG [''chat.message: '' @ type_name (type match) @ '' nudge injected'']
                        (debug DEBUG
                           [''chat.message: '' @ type_name (type match) @ '' keyword detected'']
                           con'))))"

text \<open>The handler: the guard, then the \<^verbatim>\<open>try\<close> block with its \<^verbatim>\<open>catch\<close>.\<close>

definition chat_message_with ::
  "detector \<Rightarrow> PerplexityConfig \<Rightarrow> bool \<Rightarrow> nat \<Rightarrow> HookInput \<Rightarrow> HookOutput \<Rightarrow> console
     \<Rightarrow> unit outcome \<times> HookOutput \<times> console" where
  "chat_message_with detect config DEBUG now input output con =
     (if \<not> isConfigured config then (Returned (), output, con)
      else
        (case chat_message_try detect DEBUG now input output con of
           (Thrown e, output', con') \<Rightarrow>
             (Returned (), output', debug DEBUG [''chat.message: ERROR'', error_string e] con')
         | (Returned u, output', con') \<Rightarrow> (Returned u, output', con')))"

text \<open>The handler as the plugin installs it, with \<^verbatim>\<open>detectKeywords\<close> as the detector.\<close>

definition call_detectKeywords :: "(string \<Rightarrow> RegExp option) \<Rightarrow> PerplexityConfig \<Rightarrow> detector" where
  "call_detectKeywords new_RegExp config message con =
     (case detectKeywords new_RegExp config message con of (m, con') \<Rightarrow> (Returned m, con'))"

definition chat_message ::
  "(string \<Rightarrow> RegExp option) \<Rightarrow> PerplexityConfig \<Rightarrow> bool \<Rightarrow> nat \<Rightarrow> HookInput \<Rightarrow> HookOutput
     \<Rightarrow> console \<Rightarrow> unit outcome \<times> HookOutput \<times> console" where
  "chat_message new_RegExp config =
     chat_message_with (call_detectKeywords new_RegExp config) config"


section \<open>The installer\<close>

text \<open>
  The two steps of the installer that edit the settings file and the plugin list of the
  host configuration. Files are a map from paths to contents. A JSON value keeps the
  members of an object in the order of the object; a number is kept as the text
  \<^verbatim>\<open>JSON.stringify\<close> prints for it, so zero is the text \<^verbatim>\<open>0\<close>.
  \<^verbatim>\<open>JSON.parse\<close> is a parameter (nothing where it throws).
\<close>

datatype json =
    JNull
  | JBool bool
  | JNumber string
  | JString string
  | JArray "json list"
  | JObject "(string \<times> json) list"

definition PLUGIN_NAME :: string where
  "PLUGIN_NAME = ''perplexity-opencode@latest''"

definition PERPLEXITY_CONFIG_PATH :: "string \<Rightarrow> string" where
  "PERPLEXITY_CONFIG_PATH OPENCODE_CONFIG_DIR = path_join OPENCODE_CONFIG_DIR ''perplexity.json''"

fun string_includes :: "string \<Rightarrow> string \<Rightarrow> bool" where
  "string_includes [] sub = (sub = [])"
| "string_includes (c # cs) sub = (take (length sub) (c # cs) = sub \<or> string_includes cs sub)"

definition endsWith :: "string \<Rightarrow> string \<Rightarrow> bool" where
  "endsWith s suffix =
     (length suffix \<le> length s \<and> drop (length s - length suffix) s = suffix)"

definition trimEnd :: "string \<Rightarrow> string" where
  "trimEnd s = rev (dropWhile is_space (rev s))"

definition stripJsoncComments :: "string \<Rightarrow> string" where
  "stripJsoncComments content =
     remove_all (seq [Lit ''//'', Star Dot, EolM]) False None
       (remove_all (seq [Lit ''/*'', LazyStar AnyChar, Lit ''*/'']) False None content)"

subsection \<open>Printing JSON with an indentation of two spaces\<close>

definition hex_digit :: "nat \<Rightarrow> char" where
  "hex_digit d = ''0123456789abcdef'' ! d"

definition quote_char :: "char \<Rightarrow> string" where
  "quote_char c =
     (if c = CHR 0x22 then [CHR 0x5C, CHR 0x22]
      else if c = CHR 0x5C then [CHR 0x5C, CHR 0x5C]
      else if c = CHR 0x08 then [CHR 0x5C, CHR ''b'']
      else if c = CHR 0x0C then [CHR 0x5C, CHR ''f'']
      else if c = CHR 0x0A then [CHR 0x5C, CHR ''n'']
      else if c = CHR 0x0D then [CHR 0x5C, CHR ''r'']
      else if c = CHR 0x09 then [CHR 0x5C, CHR ''t'']
      else if (of_char c :: nat) < 32 then
        [CHR 0x5C, CHR ''u'', CHR ''0'', CHR ''0'',
         hex_digit ((of_char c :: nat) div 16), hex_digit ((of_char c :: nat) mod 16)]
      else [c])"

definition quote :: "string \<Rightarrow> string" where
  "quote s = [CHR 0x22] @ concat (map quote_char s) @ [CHR 0x22]"

fun stringify_at :: "string \<Rightarrow> json \<Rightarrow> string" where
  "stringify_at indent JNull = ''null''"
| "stringify_at indent (JBool b) = (if b then ''true'' else ''false'')"
| "stringify_at indent (JNumber n) = n"
| "stringify_at indent (JString s) = quote s"
| "stringify_at indent (JArray xs) =
     (if xs = [] then ''[]''
      else ''['' @ ''\<newline>'' @ (indent @ ''  '') @
           join ('','' @ ''\<newline>'' @ (indent @ ''  ''))
             (map (\<lambda>x. stringify_at (indent @ ''  '') x) xs) @
           ''\<newline>'' @ indent @ '']'')"
| "stringify_at indent (JObject kvs) =
     (if kvs = [] then ''{}''
      else ''{'' @ ''\<newline>'' @ (indent @ ''  '') @
           join ('','' @ ''\<newline>'' @ (indent @ ''  ''))
             (map (\<lambda>kv. quote (fst kv) @ '': '' @ stringify_at (indent @ ''  '') (snd kv)) kvs) @
           ''\<newline>'' @ indent @ ''}'')"

definition JSON_stringify :: "json \<Rightarrow> string" where
  "JSON_stringify value = stringify_at [] value"

subsection \<open>Writing the settings file\<close>

definition createPerplexityConfig ::
  "string \<Rightarrow> string \<Rightarrow> filesystem \<Rightarrow> console \<Rightarrow> bool \<times> filesystem \<times> console" where
  "createPerplexityConfig OPENCODE_CONFIG_DIR api_key fs con =
     (let config = JObject [(''apiKey'', JString api_key),
                            (''keywords'', JObject [(''enabled'', JBool True)])]
      in (True,
          fs(PERPLEXITY_CONFIG_PATH OPENCODE_CONFIG_DIR \<mapsto> JSON_stringify config),
          con @ [Log [''  Created '' @ PERPLEXITY_CONFIG_PATH OPENCODE_CONFIG_DIR]]))"

subsection \<open>Registering the plugin\<close>

text \<open>
  A regular expression whose groups are read is given as the list of its consecutive
  pieces. \<open>ms_pieces\<close> lists, in backtracking order, the end states of the pieces of each
  way to match them one after another; \<open>exec_pieces\<close> finds the first match from left to
  right and returns the text before it, the text of each piece and the text behind it.
\<close>

fun ms_pieces :: "regex list \<Rightarrow> bool \<Rightarrow> mstate \<Rightarrow> mstate list list" where
  "ms_pieces [] ic s = [[]]"
| "ms_pieces (g # gs) ic s =
     concat (map (\<lambda>s'. map (\<lambda>ends. s' # ends) (ms_pieces gs ic s')) (ms g ic s))"

fun piece_texts :: "string \<Rightarrow> mstate list \<Rightarrow> string list" where
  "piece_texts s [] = []"
| "piece_texts s (e # es) = take (length s - length (snd e)) s # piece_texts (snd e) es"

fun rest_after :: "string \<Rightarrow> mstate list \<Rightarrow> string" where
  "rest_after s [] = s"
| "rest_after s (e # es) = rest_after (snd e) es"

fun exec_pieces ::
  "regex list \<Rightarrow> bool \<Rightarrow> char option \<Rightarrow> string \<Rightarrow> (string \<times> string list \<times> string) option" where
  "exec_pieces gs ic p [] =
     (case ms_pieces gs ic (p, []) of
        [] \<Rightarrow> None
      | ends # _ \<Rightarrow> Some ([], piece_texts [] ends, rest_after [] ends))"
| "exec_pieces gs ic p (c # cs) =
     (case ms_pieces gs ic (p, c # cs) of
        [] \<Rightarrow>
          (case exec_pieces gs ic (Some c) cs of
             None \<Rightarrow> None
           | Some (before, texts, after) \<Rightarrow> Some (c # before, texts, after))
      | ends # _ \<Rightarrow> Some ([], piece_texts (c # cs) ends, rest_after (c # cs) ends))"

text \<open>The replacement of the plugin array in a \<^verbatim>\<open>.jsonc\<close> file that has the key.\<close>

definition replace_plugin_array :: "string \<Rightarrow> string" where
  "replace_plugin_array content =
     (case exec_pieces
             [seq [Lit (quote ''plugin''), Star Space, Lit '':'', Star Space, Lit ''[''],
              LazyStar (NCls '']''),
              Lit '']'']
             False None content of
        Some (before, [start, middle, end_], after) \<Rightarrow>
          before @
          (if trim middle = [] then
             start @ ''\<newline>    '' @ quote PLUGIN_NAME @ ''\<newline>  '' @ end_
           else
             start @ trimEnd middle @ '','' @ ''\<newline>    '' @ quote PLUGIN_NAME @ ''\<newline>  '' @ end_) @
          after
      | _ \<Rightarrow> content)"

text \<open>The insertion of the key behind the opening brace of a \<^verbatim>\<open>.jsonc\<close> file without it.\<close>

definition insert_plugin_key :: "string \<Rightarrow> string" where
  "insert_plugin_key content =
     (case exec_pieces [Bos, Seq (Star Space) (Lit ''{'')] False None content of
        Some (before, [bos, group1], after) \<Rightarrow>
          before @ group1 @ ''\<newline>  '' @ quote ''plugin'' @ '': ['' @ quote PLUGIN_NAME @ ''],'' @ after
      | _ \<Rightarrow> content)"

text \<open>
  Lines 133 to 135: reading \<^verbatim>\<open>config.plugin\<close>, pushing the name and storing the list.
  These throw a type error (nothing here) when the parsed value is \<^verbatim>\<open>null\<close>, when it
  is a boolean, number or string (the store fails), or when the member \<^verbatim>\<open>plugin\<close> is
  present, not falsy and not an array. A stored member of an array is not printed.
\<close>

definition falsy :: "json \<Rightarrow> bool" where
  "falsy v = (v = JNull \<or> v = JBool False \<or> v = JNumber ''0'' \<or> v = JString [])"

fun set_member :: "(string \<times> json) list \<Rightarrow> string \<Rightarrow> json \<Rightarrow> (string \<times> json) list" where
  "set_member [] k v = [(k, v)]"
| "set_member ((k', v') # kvs) k v =
     (if k' = k then (k, v) # kvs else (k', v') # set_member kvs k v)"

definition push_plugin :: "json \<Rightarrow> json option" where
  "push_plugin config =
     (case config of
        JObject kvs \<Rightarrow>
          (case map_of kvs ''plugin'' of
             None \<Rightarrow> Some (JObject (set_member kvs ''plugin'' (JArray [JString PLUGIN_NAME])))
           | Some (JArray plugins) \<Rightarrow>
               Some (JObject (set_member kvs ''plugin'' (JArray (plugins @ [JString PLUGIN_NAME]))))
           | Some v \<Rightarrow>
               if falsy v then
                 Some (JObject (set_member kvs ''plugin'' (JArray [JString PLUGIN_NAME])))
               else None)
      | JArray xs \<Rightarrow> Some (JArray xs)
      | _ \<Rightarrow> None)"

definition addPluginToConfig ::
  "(string \<Rightarrow> json option) \<Rightarrow> string \<Rightarrow> filesystem \<Rightarrow> console
     \<Rightarrow> bool \<times> filesystem \<times> console" where
  "addPluginToConfig JSON_parse configPath fs con =
     (case fs configPath of
        None \<Rightarrow> (False, fs, con @ [Error [''  Failed to update config:'']])
      | Some content \<Rightarrow>
          if string_includes content ''perplexity-opencode'' then
            (True, fs, con @ [Log [''  Plugin already registered in config'']])
          else
            (case JSON_parse (stripJsoncComments content) of
               None \<Rightarrow> (False, fs, con @ [Error [''  Failed to parse config file'']])
             | Some config \<Rightarrow>
                 (case push_plugin config of
                    None \<Rightarrow> (False, fs, con @ [Error [''  Failed to update config:'']])
                  | Some config' \<Rightarrow>
                      (True,
                       fs(configPath \<mapsto>
                            (if endsWith configPath ''.jsonc'' then
                               (if string_includes content (quote ''plugin'')
                                then replace_plugin_array content
                                else insert_plugin_key content)
                             else JSON_stringify config')),
                       con @ [Log [''  Added plugin to '' @ configPath]]))))"


section \<open>The ordered scan, as the specification words it\<close>

text \<open>
  The specification describes detection as one scan over an ordered list: the research
  patterns, then the custom patterns that compile, then the built-in search patterns, each
  tagged with the category it reports. \<open>first_in_scan\<close> returns the first entry of such a
  list that matches, with its category and the matched text.
\<close>

definition ordered_scan ::
  "(string \<Rightarrow> RegExp option) \<Rightarrow> PerplexityConfig \<Rightarrow> (match_type \<times> RegExp) list" where
  "ordered_scan new_RegExp config =
     map (Pair research) (map match_i RESEARCH_PATTERNS) @
     map (Pair search) (List.map_filter new_RegExp (customPatterns (config_keywords config))) @
     map (Pair search) (map match_i SEARCH_PATTERNS)"

definition first_in_scan :: "(match_type \<times> RegExp) list \<Rightarrow> string \<Rightarrow> KeywordMatch option" where
  "first_in_scan scan s =
     (case find (\<lambda>e. snd e s \<noteq> None) scan of
        None \<Rightarrow> None
      | Some e \<Rightarrow>
          (case snd e s of None \<Rightarrow> None | Some m \<Rightarrow> Some \<lparr>type = fst e, matchedText = m\<rparr>))"

section \<open>Research phrases, as the specification words them\<close>

text \<open>
  The fixed research-trigger phrases: a first word (with \<^verbatim>\<open>in-depth\<close> and
  \<^verbatim>\<open>in depth\<close> counted as one) and a second word, one space apart. A text is a
  phrase in any letter casing when it differs from the phrase only in the case of its
  letters. A phrase occurs as whole words when the character before it and the character
  behind it, where there is one, is no word character (letter, digit or underscore).
\<close>

definition research_words :: "(string list \<times> string list) list" where
  "research_words =
     [([''deep''], [''dive'', ''research'', ''analysis'']),
      ([''comprehensive''], [''search'', ''research'', ''analysis'']),
      ([''thorough'', ''thoroughly''], [''research'', ''investigate'', ''search'']),
      ([''in-depth'', ''in depth''], [''research'', ''analysis'']),
      ([''detailed''], [''research'', ''analysis'', ''report''])]"

definition research_phrases :: "string list" where
  "research_phrases =
     concat (map (\<lambda>(firsts, seconds).
                    concat (map (\<lambda>f. map (\<lambda>s. f @ '' '' @ s) seconds) firsts))
                 research_words)"

definition in_any_casing :: "string \<Rightarrow> string \<Rightarrow> bool" where
  "in_any_casing p phrase = (map canonicalize p = map canonicalize phrase)"

definition word_char_before :: "string \<Rightarrow> bool" where
  "word_char_before pre = (pre \<noteq> [] \<and> is_word_char (last pre))"

definition word_char_after :: "string \<Rightarrow> bool" where
  "word_char_after post = (post \<noteq> [] \<and> is_word_char (hd post))"

section \<open>Messages with code spans, as the specification words them\<close>

text \<open>
  A message written as a sequence of segments: plain text, inline code spans (a backtick,
  a body, a backtick) and fenced code blocks (three backticks, a body, three backticks).
  \<open>render_all\<close> is the message, \<open>outside_text\<close> is what it holds outside the code spans.
  \<open>well_formed\<close> says that the segments are what they are called: plain text is not
  empty and has no backtick; the body of an inline span is not empty and has no backtick,
  and no fenced block follows the span directly; the body of a fenced block does not close
  the block early, that is, three backticks in a row do not occur in the body followed by
  two backticks.
\<close>

datatype segment = Plain string | Inline string | Fenced string

fun render :: "segment \<Rightarrow> string" where
  "render (Plain t) = t"
| "render (Inline body) = ''`'' @ body @ ''`''"
| "render (Fenced body) = ''```'' @ body @ ''```''"

definition render_all :: "segment list \<Rightarrow> string" where
  "render_all segs = concat (map render segs)"

fun outside_text :: "segment list \<Rightarrow> string" where
  "outside_text [] = []"
| "outside_text (Plain t # rest) = t @ outside_text rest"
| "outside_text (Inline body # rest) = outside_text rest"
| "outside_text (Fenced body # rest) = outside_text rest"

fun starts_fenced :: "segment list \<Rightarrow> bool" where
  "starts_fenced (Fenced body # rest) = True"
| "starts_fenced segs = False"

fun well_formed :: "segment list \<Rightarrow> bool" where
  "well_formed [] = True"
| "well_formed (Plain t # rest) = (t \<noteq> [] \<and> CHR 0x60 \<notin> set t \<and> well_formed rest)"
| "well_formed (Inline body # rest) =
     (body \<noteq> [] \<and> CHR 0x60 \<notin> set body \<and> \<not> starts_fenced rest \<and> well_formed rest)"
| "well_formed (Fenced body # rest) =
     (\<not> string_includes (body @ ''``'') ''```'' \<and> well_formed rest)"

text \<open>Two auxiliary notions for the proofs about the two passes of \<^verbatim>\<open>removeCodeBlocks\<close>.\<close>

definition is_fenced :: "segment \<Rightarrow> bool" where
  "is_fenced seg = (case seg of Fenced body \<Rightarrow> True | _ \<Rightarrow> False)"

fun no_fenced :: "segment list \<Rightarrow> bool" where
  "no_fenced [] = True"
| "no_fenced (Plain t # rest) = (CHR 0x60 \<notin> set t \<and> no_fenced rest)"
| "no_fenced (Inline body # rest) = (body \<noteq> [] \<and> CHR 0x60 \<notin> set body \<and> no_fenced rest)"
| "no_fenced (Fenced body # rest) = False"

section \<open>Example values\<close>

text \<open>
  Concrete values on which the theorems below are exercised. \<open>example_RegExp\<close> stands for
  the constructor on two kinds of pattern text: \<^verbatim>\<open>(\<close> is a syntax error, and a text of
  letters compiles to the expression that matches these letters in either case.
\<close>

definition example_RegExp :: "string \<Rightarrow> RegExp option" where
  "example_RegExp pattern = (if pattern = ''('' then None else Some (match_i (Lit pattern)))"

definition example_config :: PerplexityConfig where
  "example_config =
     \<lparr>apiKey = ''pplx-1'', mcpUrl = ''stdio://perplexity-mcp'', model = ''sonar'',
      config_keywords = \<lparr>enabled = True, customPatterns = [''('', ''zig'']\<rparr>\<rparr>"

definition empty_pattern_config :: PerplexityConfig where
  "empty_pattern_config =
     \<lparr>apiKey = ''pplx-1'', mcpUrl = ''stdio://perplexity-mcp'', model = ''sonar'',
      config_keywords = \<lparr>enabled = True, customPatterns = [[]]\<rparr>\<rparr>"

definition disabled_config :: PerplexityConfig where
  "disabled_config =
     \<lparr>apiKey = ''pplx-1'', mcpUrl = ''stdio://perplexity-mcp'', model = ''sonar'',
      config_keywords = \<lparr>enabled = False, customPatterns = []\<rparr>\<rparr>"

definition throwing_detector :: detector where
  "throwing_detector message con = (Thrown (JsError ''TypeError: boom''), con)"

definition example_input :: HookInput where
  "example_input = \<lparr>input_sessionID = ''ses_1''\<rparr>"

definition user_part :: "string \<Rightarrow> Part" where
  "user_part t =
     \<lparr>part_id = ''prt_1'', part_sessionID = ''ses_1'', part_messageID = ''msg_1'',
      part_type = ''text'', part_text = t, part_synthetic = False\<rparr>"

definition example_output :: "string \<Rightarrow> HookOutput" where
  "example_output t = \<lparr>output_message_id = ''msg_1'', parts = [user_part t]\<rparr>"

definition example_file_config :: FileConfig where
  "example_file_config =
     \<lparr>file_apiKey = Some ''pplx-file'', file_mcpUrl = None, file_model = None,
      file_keywords = None\<rparr>"

definition example_env :: environment where
  "example_env = [''PERPLEXITY_API_KEY'' \<mapsto> ''pplx-env'']"

definition example_settings_path :: string where
  "example_settings_path = ''/home/u/.config/opencode/perplexity.json''"

definition example_host_path :: string where
  "example_host_path = ''/home/u/.config/opencode/opencode.json''"

definition example_fs :: filesystem where
  "example_fs =
     [example_settings_path \<mapsto> ''{ \"apiKey\": \"pplx-old\", \"keywords\": { \"enabled\": false } }'',
      example_host_path \<mapsto> ''{ \"plugin\": [\"perplexity-opencode@latest\"] }'']"

definition example_JSON_parse :: "string \<Rightarrow> json option" where
  "example_JSON_parse s = None"

section \<open>Properties of the detector\<close>

lemma compile_each_eq:
  "compile_each new_RegExp ps con =
     (map new_RegExp ps,
      con @ map invalid_pattern_warning (filter (\<lambda>p. new_RegExp p = None) ps))"
  by (induction ps arbitrary: con) (simp_all split: option.splits)

lemma non_null_map_filter: "non_null (map f xs) = List.map_filter f xs"
  by (induction xs) (auto simp: List.map_filter_simps split: option.splits)

lemma compileCustomPatterns_eq:
  "compileCustomPatterns new_RegExp config con =
     (List.map_filter new_RegExp (customPatterns (config_keywords config)),
      con @ map invalid_pattern_warning
              (filter (\<lambda>p. new_RegExp p = None) (customPatterns (config_keywords config))))"
  by (simp add: compileCustomPatterns_def compile_each_eq non_null_map_filter)

lemma scan_patterns_first_in_scan:
  "scan_patterns t ps s = first_in_scan (map (Pair t) ps) s"
  by (induction ps) (auto simp: first_in_scan_def split: option.splits)

lemma first_in_scan_append:
  "first_in_scan (xs @ ys) s =
     (case first_in_scan xs s of Some m \<Rightarrow> Some m | None \<Rightarrow> first_in_scan ys s)"
  by (induction xs) (auto simp: first_in_scan_def split: option.splits)

lemma scan_patterns_None: "scan_patterns t ps s = None \<longleftrightarrow> (\<forall>p \<in> set ps. p s = None)"
  by (induction ps) (auto split: option.splits)

lemma scan_patterns_type: "scan_patterns t ps s = Some m \<Longrightarrow> type m = t"
  by (induction ps) (auto split: option.splits)

lemma detectKeywords_fst:
  "fst (detectKeywords new_RegExp config message con) =
     (if \<not> enabled (config_keywords config) then None
      else case scan_patterns research (map match_i RESEARCH_PATTERNS) (removeCodeBlocks message) of
             Some m \<Rightarrow> Some m
           | None \<Rightarrow>
               (case scan_patterns search
                       (List.map_filter new_RegExp (customPatterns (config_keywords config)))
                       (removeCodeBlocks message) of
                  Some m \<Rightarrow> Some m
                | None \<Rightarrow>
                    scan_patterns search (map match_i SEARCH_PATTERNS) (removeCodeBlocks message)))"
  by (simp add: detectKeywords_def compileCustomPatterns_eq Let_def split: option.splits)

lemma detectKeywords_snd:
  "snd (detectKeywords new_RegExp config message con) =
     (if \<not> enabled (config_keywords config) then con
      else con @ map invalid_pattern_warning
                   (filter (\<lambda>p. new_RegExp p = None) (customPatterns (config_keywords config))))"
  by (simp add: detectKeywords_def compileCustomPatterns_eq Let_def split: option.splits)

lemma detect_research_iff:
  assumes "enabled (config_keywords config)"
  shows "(\<exists>t. fst (detectKeywords new_RegExp config message con)
               = Some \<lparr>type = research, matchedText = t\<rparr>)
         \<longleftrightarrow> (\<exists>r \<in> set RESEARCH_PATTERNS. match_i r (removeCodeBlocks message) \<noteq> None)"
proof -
  let ?c = "removeCodeBlocks message"
  let ?R = "scan_patterns research (map match_i RESEARCH_PATTERNS) ?c"
  show ?thesis
  proof (cases ?R)
    case None
    then have no: "\<forall>r \<in> set RESEARCH_PATTERNS. match_i r ?c = None"
      by (simp add: scan_patterns_None)
    have "\<not> (\<exists>t. fst (detectKeywords new_RegExp config message con)
                   = Some \<lparr>type = research, matchedText = t\<rparr>)"
    proof
      assume "\<exists>t. fst (detectKeywords new_RegExp config message con)
                   = Some \<lparr>type = research, matchedText = t\<rparr>"
      then obtain t where
        t: "fst (detectKeywords new_RegExp config message con)
              = Some \<lparr>type = research, matchedText = t\<rparr>" ..
      from t assms None
      have "scan_patterns search
              (List.map_filter new_RegExp (customPatterns (config_keywords config))) ?c
              = Some \<lparr>type = research, matchedText = t\<rparr>
            \<or> scan_patterns search (map match_i SEARCH_PATTERNS) ?c
              = Some \<lparr>type = research, matchedText = t\<rparr>"
        by (auto simp: detectKeywords_fst split: option.splits)
      then show False
        by (auto dest: scan_patterns_type)
    qed
    with no show ?thesis by simp
  next
    case (Some m)
    then have "type m = research" by (rule scan_patterns_type)
    then have m: "m = \<lparr>type = research, matchedText = matchedText m\<rparr>" by simp
    from Some have "\<exists>r \<in> set RESEARCH_PATTERNS. match_i r ?c \<noteq> None"
      using scan_patterns_None [of research "map match_i RESEARCH_PATTERNS" ?c] by auto
    moreover have "fst (detectKeywords new_RegExp config message con) = Some m"
      using assms Some by (simp add: detectKeywords_fst)
    ultimately show ?thesis using m by metis
  qed
qed

text \<open>
  Claim C8. When keyword detection is disabled in the configuration, the detector
  returns no match for every message (and leaves the console as it was).
\<close>

theorem detect_disabled_no_match:
  "\<not> enabled (config_keywords config)
   \<Longrightarrow> detectKeywords new_RegExp config message con = (None, con)"
  by (simp add: detectKeywords_def)

theorem detect_disabled_no_match_witness:
  "\<not> enabled (config_keywords disabled_config)
   \<and> detectKeywords example_RegExp disabled_config ''search the web'' [] = (None, [])"
  using detect_disabled_no_match [of disabled_config example_RegExp "''search the web''" "[]"]
  by (simp add: disabled_config_def)

text \<open>
  Claim C1. With detection enabled, the detector returns the first match of the ordered
  scan over the research patterns, then the custom patterns that compile, then the
  built-in search patterns, applied to the message without its code spans; the match
  carries the category of that entry and the matched text, and later entries are not
  consulted. In particular, whenever a research pattern matches that text, the category
  returned is research, whatever else matches.
\<close>

theorem detect_first_in_ordered_scan:
  assumes "enabled (config_keywords config)"
  shows "fst (detectKeywords new_RegExp config message con)
           = first_in_scan (ordered_scan new_RegExp config) (removeCodeBlocks message)
         \<and> ((\<exists>r \<in> set RESEARCH_PATTERNS. match_i r (removeCodeBlocks message) \<noteq> None)
              \<longrightarrow> (\<exists>t. fst (detectKeywords new_RegExp config message con)
                        = Some \<lparr>type = research, matchedText = t\<rparr>))"
proof
  show "fst (detectKeywords new_RegExp config message con)
          = first_in_scan (ordered_scan new_RegExp config) (removeCodeBlocks message)"
    using assms
    by (simp add: detectKeywords_fst ordered_scan_def first_in_scan_append
        scan_patterns_first_in_scan split: option.splits)
next
  show "(\<exists>r \<in> set RESEARCH_PATTERNS. match_i r (removeCodeBlocks message) \<noteq> None)
          \<longrightarrow> (\<exists>t. fst (detectKeywords new_RegExp config message con)
                    = Some \<lparr>type = research, matchedText = t\<rparr>)"
    using detect_research_iff [OF assms, of new_RegExp message con] by blast
qed

theorem detect_first_in_ordered_scan_witness:
  "enabled (config_keywords example_config)
   \<and> (\<exists>r \<in> set RESEARCH_PATTERNS. match_i r (removeCodeBlocks ''deep dive vs rust'') \<noteq> None)
   \<and> first_in_scan (ordered_scan example_RegExp example_config)
         (removeCodeBlocks ''deep dive vs rust'')
       = Some \<lparr>type = research, matchedText = ''deep dive''\<rparr>
   \<and> fst (detectKeywords example_RegExp example_config ''deep dive vs rust'' [])
       = Some \<lparr>type = research, matchedText = ''deep dive''\<rparr>"
proof -
  have e: "enabled (config_keywords example_config)"
    by (simp add: example_config_def)
  have r: "\<exists>r \<in> set RESEARCH_PATTERNS. match_i r (removeCodeBlocks ''deep dive vs rust'') \<noteq> None"
    by code_simp
  have v: "fst (detectKeywords example_RegExp example_config ''deep dive vs rust'' [])
             = Some \<lparr>type = research, matchedText = ''deep dive''\<rparr>"
    by code_simp
  from detect_first_in_ordered_scan [OF e, of example_RegExp "''deep dive vs rust''" "[]"] e r v
  show ?thesis by simp
qed

text \<open>
  Claim C10. When no research pattern matches the message (without its code spans) and a
  custom pattern that compiles does, the match returned has the category search, never
  research, and the hook picks the search nudge for it, which is not the research nudge.
\<close>

theorem custom_match_is_search:
  assumes "enabled (config_keywords config)"
    and "\<forall>r \<in> set RESEARCH_PATTERNS. match_i r (removeCodeBlocks message) = None"
    and "pattern \<in> set (customPatterns (config_keywords config))"
    and "new_RegExp pattern = Some re"
    and "re (removeCodeBlocks message) \<noteq> None"
  shows "\<exists>m. fst (detectKeywords new_RegExp config message con) = Some m
              \<and> type m = search \<and> type m \<noteq> research
              \<and> nudge_text m = getSearchNudge \<and> nudge_text m \<noteq> getResearchNudge"
proof -
  let ?c = "removeCodeBlocks message"
  let ?customs = "List.map_filter new_RegExp (customPatterns (config_keywords config))"
  have "re \<in> set ?customs"
    using assms(3,4) by (force simp: List.map_filter_def)
  with assms(5) have "scan_patterns search ?customs ?c \<noteq> None"
    by (auto simp: scan_patterns_None)
  then obtain m where m: "scan_patterns search ?customs ?c = Some m" by blast
  have none: "scan_patterns research (map match_i RESEARCH_PATTERNS) ?c = None"
    using assms(2) by (simp add: scan_patterns_None)
  have res: "fst (detectKeywords new_RegExp config message con) = Some m"
    using assms(1) none m by (simp add: detectKeywords_fst)
  have t: "type m = search" using m by (rule scan_patterns_type)
  have differ: "getSearchNudge \<noteq> getResearchNudge"
    by (simp add: getSearchNudge_def getResearchNudge_def)
  from res t differ show ?thesis
    by (simp add: nudge_text_def)
qed

theorem custom_match_is_search_witness:
  "enabled (config_keywords example_config)
   \<and> list_all (\<lambda>r. match_i r (removeCodeBlocks ''Zig'') = None) RESEARCH_PATTERNS
   \<and> ''zig'' \<in> set (customPatterns (config_keywords example_config))
   \<and> example_RegExp ''zig'' = Some (match_i (Lit ''zig''))
   \<and> match_i (Lit ''zig'') (removeCodeBlocks ''Zig'') \<noteq> None
   \<and> (\<exists>m. fst (detectKeywords example_RegExp example_config ''Zig'' []) = Some m
           \<and> type m = search \<and> type m \<noteq> research
           \<and> nudge_text m = getSearchNudge \<and> nudge_text m \<noteq> getResearchNudge)"
proof -
  have e: "enabled (config_keywords example_config)"
    by (simp add: example_config_def)
  have r: "\<forall>r \<in> set RESEARCH_PATTERNS. match_i r (removeCodeBlocks ''Zig'') = None"
    by code_simp
  have p: "''zig'' \<in> set (customPatterns (config_keywords example_config))"
    by (simp add: example_config_def)
  have c: "example_RegExp ''zig'' = Some (match_i (Lit ''zig''))"
    by (simp add: example_RegExp_def)
  have h: "match_i (Lit ''zig'') (removeCodeBlocks ''Zig'') \<noteq> None"
    by code_simp
  from custom_match_is_search
         [where config = example_config and message = "''Zig''" and pattern = "''zig''"
            and new_RegExp = example_RegExp and re = "match_i (Lit ''zig'')" and con = "[]",
          OF e r p c h]
       e r p c h
  show ?thesis by (simp add: list_all_iff)
qed

text \<open>
  Claim C5. A custom pattern that does not compile is skipped: the detector returns the
  same match as for the configuration without that pattern, so the built-in and the other
  custom patterns match as before; and when detection is enabled, the console receives
  the warning naming the pattern.
\<close>

theorem invalid_custom_pattern_skipped:
  assumes "new_RegExp bad = None"
  shows "fst (detectKeywords new_RegExp
                (config\<lparr>config_keywords :=
                   (config_keywords config)\<lparr>customPatterns := before @ bad # after\<rparr>\<rparr>)
                message con)
         = fst (detectKeywords new_RegExp
                  (config\<lparr>config_keywords :=
                     (config_keywords config)\<lparr>customPatterns := before @ after\<rparr>\<rparr>)
                  message con)
         \<and> (enabled (config_keywords config) \<longrightarrow>
              invalid_pattern_warning bad
                \<in> set (snd (detectKeywords new_RegExp
                             (config\<lparr>config_keywords :=
                                (config_keywords config)\<lparr>customPatterns := before @ bad # after\<rparr>\<rparr>)
                             message con)))"
proof -
  have "List.map_filter new_RegExp (before @ bad # after)
          = List.map_filter new_RegExp (before @ after)"
    using assms by (simp add: List.map_filter_def)
  then show ?thesis
    using assms by (simp add: detectKeywords_fst detectKeywords_snd cong: option.case_cong)
qed

theorem invalid_custom_pattern_skipped_witness:
  "example_RegExp ''('' = None
   \<and> enabled (config_keywords example_config)
   \<and> fst (detectKeywords example_RegExp
            (example_config\<lparr>config_keywords :=
               (config_keywords example_config)\<lparr>customPatterns := [] @ ''('' # [''zig'']\<rparr>\<rparr>)
            ''who is zig'' [])
       = fst (detectKeywords example_RegExp
                (example_config\<lparr>config_keywords :=
                   (config_keywords example_config)\<lparr>customPatterns := [] @ [''zig'']\<rparr>\<rparr>)
                ''who is zig'' [])
   \<and> invalid_pattern_warning ''(''
        \<in> set (snd (detectKeywords example_RegExp
                     (example_config\<lparr>config_keywords :=
                        (config_keywords example_config)\<lparr>customPatterns := [] @ ''('' # [''zig'']\<rparr>\<rparr>)
                     ''who is zig'' []))"
proof -
  have b: "example_RegExp ''('' = None"
    by (simp add: example_RegExp_def)
  have e: "enabled (config_keywords example_config)"
    by (simp add: example_config_def)
  from invalid_custom_pattern_skipped
         [where new_RegExp = example_RegExp and bad = "''(''" and config = example_config
            and before = "[]" and after = "[''zig'']" and message = "''who is zig''"
            and con = "[]", OF b]
       b e
  show ?thesis by simp
qed

section \<open>Properties of the message hook\<close>

lemma chat_message_try_cases:
  "chat_message_try detect DEBUG now input out con = (r, out', con')
   \<Longrightarrow> (r = Returned () \<and> out' = out)
       \<or> (\<exists>e. r = Thrown e \<and> out' = out)
       \<or> (\<exists>m c. r = Returned ()
              \<and> filter (\<lambda>p. part_type p = ''text'') (parts out) \<noteq> []
              \<and> trim (join ''\<newline>'' (map part_text
                        (filter (\<lambda>p. part_type p = ''text'') (parts out)))) \<noteq> []
              \<and> detect (join ''\<newline>'' (map part_text
                          (filter (\<lambda>p. part_type p = ''text'') (parts out))))
                   (debug DEBUG [''chat.message: processing''] con) = (Returned (Some m), c)
              \<and> out' = out\<lparr>parts := parts out @ [nudge_part m now input out]\<rparr>)"
  by (auto simp: chat_message_try_def Let_def split: if_splits prod.splits outcome.splits option.splits)

text \<open>
  Claim C3, as amended. The handler always returns normally, whatever the detector call
  does. When the \<^verbatim>\<open>try\<close> block throws, the handler returns with the out it was
  given, no segment appended; the error reaches the console only when debug logging is
  switched on, and the console is left as it was otherwise.
\<close>

theorem hook_never_throws:
  "fst (chat_message_with detect config DEBUG now input out con) = Returned ()
   \<and> (isConfigured config
        \<and> chat_message_try detect DEBUG now input out con = (Thrown e, out', con')
      \<longrightarrow> chat_message_with detect config DEBUG now input out con
            = (Returned (), out,
               if DEBUG
               then con' @ [Log [''[perplexity-opencode]'', ''chat.message: ERROR'', error_string e]]
               else con'))"
proof
  show "fst (chat_message_with detect config DEBUG now input out con) = Returned ()"
    by (cases "chat_message_try detect DEBUG now input out con")
       (auto simp: chat_message_with_def split: outcome.splits)
next
  show "isConfigured config
        \<and> chat_message_try detect DEBUG now input out con = (Thrown e, out', con')
      \<longrightarrow> chat_message_with detect config DEBUG now input out con
            = (Returned (), out,
               if DEBUG
               then con' @ [Log [''[perplexity-opencode]'', ''chat.message: ERROR'', error_string e]]
               else con')"
    using chat_message_try_cases [of detect DEBUG now input out con "Thrown e" out' con']
    by (auto simp: chat_message_with_def debug_def)
qed

theorem hook_never_throws_witness:
  "isConfigured example_config
   \<and> chat_message_try throwing_detector True 42 example_input (example_output ''deep dive'') []
       = (Thrown (JsError ''TypeError: boom''), example_output ''deep dive'',
          [Log [''[perplexity-opencode]'', ''chat.message: processing'']])
   \<and> chat_message_with throwing_detector example_config True 42 example_input
         (example_output ''deep dive'') []
       = (Returned (), example_output ''deep dive'',
          [Log [''[perplexity-opencode]'', ''chat.message: processing''],
           Log [''[perplexity-opencode]'', ''chat.message: ERROR'', ''TypeError: boom'']])"
proof -
  have c: "isConfigured example_config"
    by (simp add: isConfigured_def example_config_def)
  have t: "chat_message_try throwing_detector True 42 example_input (example_output ''deep dive'') []
             = (Thrown (JsError ''TypeError: boom''), example_output ''deep dive'',
                [Log [''[perplexity-opencode]'', ''chat.message: processing'']])"
    by code_simp
  from hook_never_throws
         [where detect = throwing_detector and config = example_config and DEBUG = True
            and now = 42 and input = example_input and out = "example_output ''deep dive''"
            and con = "[]" and e = "JsError ''TypeError: boom''"
            and out' = "example_output ''deep dive''"
            and con' = "[Log [''[perplexity-opencode]'', ''chat.message: processing'']]"]
       c t
  show ?thesis by (simp add: error_string_def)
qed

text \<open>
  Claim C3 as it is worded fails where it says that the exception is logged: without
  debug logging, the handler catches the error of a throwing detector call and leaves the
  console empty.
\<close>

theorem hook_error_not_logged_counterexample:
  "chat_message_with throwing_detector example_config False 42 example_input
     (example_output ''deep dive'') []
   = (Returned (), example_output ''deep dive'', [])"
  by code_simp

lemma show_nat_nonempty: "show_nat n \<noteq> []"
  by (subst show_nat.simps) simp

lemma digit_char_inj:
  assumes "a < 10" "b < 10" "digit_char a = digit_char b"
  shows "a = b"
proof -
  have "\<forall>a \<in> set [0..<10]. \<forall>b \<in> set [0..<10]. digit_char a = digit_char b \<longrightarrow> a = b"
    by code_simp
  with assms show ?thesis by simp
qed

lemma show_nat_inj: "show_nat n = show_nat m \<Longrightarrow> n = m"
proof (induction n arbitrary: m rule: show_nat.induct)
  case (1 n)
  show ?case
  proof (cases "n < 10")
    case True
    then have n: "show_nat n = [digit_char n]"
      by (subst show_nat.simps) simp
    show ?thesis
    proof (cases "m < 10")
      case m: True
      then have "show_nat m = [digit_char m]"
        by (subst show_nat.simps) simp
      with n "1.prems" have "digit_char n = digit_char m" by simp
      with True m show ?thesis by (rule digit_char_inj)
    next
      case False
      then have "show_nat m = show_nat (m div 10) @ [digit_char (m mod 10)]"
        by (subst show_nat.simps) simp
      with n "1.prems" show_nat_nonempty [of "m div 10"] show ?thesis
        by (cases "show_nat (m div 10)") auto
    qed
  next
    case False
    then have n: "show_nat n = show_nat (n div 10) @ [digit_char (n mod 10)]"
      by (subst show_nat.simps) simp
    show ?thesis
    proof (cases "m < 10")
      case True
      then have "show_nat m = [digit_char m]"
        by (subst show_nat.simps) simp
      with n "1.prems" show_nat_nonempty [of "n div 10"] show ?thesis
        by (cases "show_nat (n div 10)") auto
    next
      case m: False
      then have "show_nat m = show_nat (m div 10) @ [digit_char (m mod 10)]"
        by (subst show_nat.simps) simp
      with n "1.prems" have
        q: "show_nat (n div 10) = show_nat (m div 10)"
        and d: "digit_char (n mod 10) = digit_char (m mod 10)"
        by simp_all
      from "1.IH" [OF False q] have "n div 10 = m div 10" .
      moreover have "n mod 10 = m mod 10"
        using d by (intro digit_char_inj) simp_all
      ultimately show ?thesis
        by (metis div_mult_mod_eq)
    qed
  qed
qed

lemma chat_message_parts:
  "snd (chat_message_with detect config DEBUG now input out con) = (out', con')
   \<Longrightarrow> out' =
       (if isConfigured config
           \<and> filter (\<lambda>p. part_type p = ''text'') (parts out) \<noteq> []
           \<and> trim (join ''\<newline>'' (map part_text
                     (filter (\<lambda>p. part_type p = ''text'') (parts out)))) \<noteq> []
        then (case fst (detect (join ''\<newline>'' (map part_text
                                (filter (\<lambda>p. part_type p = ''text'') (parts out))))
                          (debug DEBUG [''chat.message: processing''] con)) of
                Returned (Some m) \<Rightarrow> out\<lparr>parts := parts out @ [nudge_part m now input out]\<rparr>
              | _ \<Rightarrow> out)
        else out)"
  by (auto simp: chat_message_with_def chat_message_try_def Let_def
           split: if_splits prod.splits outcome.splits option.splits)

text \<open>
  Claim C4, as amended. Every call of the handler leaves the segments it was given as
  they are, in their order, and the message identifier too. When the handler runs the
  detector (the plugin is configured, the message has text segments and their text is not
  blank) and the detector matches, the new list is the old one followed by exactly one
  segment: synthetic, of type text, holding the nudge text of the category, with an
  identifier made of the category and the clock reading; otherwise the list is unchanged.
  Identifiers made for different categories or at different clock readings differ;
  nothing more is said about the identifier, which is not compared with those of the
  segments that are there.
\<close>

theorem hook_appends_one_nudge:
  "output_message_id (fst (snd (chat_message new_RegExp config DEBUG now input out con)))
     = output_message_id out
   \<and> parts (fst (snd (chat_message new_RegExp config DEBUG now input out con)))
     = parts out @
       (if isConfigured config
           \<and> filter (\<lambda>p. part_type p = ''text'') (parts out) \<noteq> []
           \<and> trim (join ''\<newline>'' (map part_text
                     (filter (\<lambda>p. part_type p = ''text'') (parts out)))) \<noteq> []
        then (case fst (detectKeywords new_RegExp config
                          (join ''\<newline>'' (map part_text
                             (filter (\<lambda>p. part_type p = ''text'') (parts out)))) []) of
                None \<Rightarrow> []
              | Some m \<Rightarrow>
                  [\<lparr>part_id = ''perplexity-'' @ type_name (type m) @ ''-nudge-'' @ show_nat now,
                    part_sessionID = input_sessionID input,
                    part_messageID = output_message_id out,
                    part_type = ''text'',
                    part_text = (if type m = research then getResearchNudge else getSearchNudge),
                    part_synthetic = True\<rparr>])
        else [])
   \<and> (t \<noteq> t' \<or> n \<noteq> n'
      \<longrightarrow> ''perplexity-'' @ type_name t @ ''-nudge-'' @ show_nat n
          \<noteq> ''perplexity-'' @ type_name t' @ ''-nudge-'' @ show_nat n')"
proof -
  let ?msg = "join ''\<newline>'' (map part_text (filter (\<lambda>p. part_type p = ''text'') (parts out)))"
  obtain r out' con' where
    res: "chat_message new_RegExp config DEBUG now input out con = (r, out', con')"
    by (cases "chat_message new_RegExp config DEBUG now input out con")
  have d: "fst (call_detectKeywords new_RegExp config ?msg c)
             = Returned (fst (detectKeywords new_RegExp config ?msg []))" for c
  proof -
    have "fst (detectKeywords new_RegExp config ?msg c)
            = fst (detectKeywords new_RegExp config ?msg [])"
      by (simp only: detectKeywords_fst)
    then show ?thesis
      by (simp add: call_detectKeywords_def case_prod_beta)
  qed
  from res have "snd (chat_message_with (call_detectKeywords new_RegExp config) config DEBUG now
                        input out con) = (out', con')"
    by (simp add: chat_message_def)
  from chat_message_parts [OF this] have
    out': "out' =
       (if isConfigured config
           \<and> filter (\<lambda>p. part_type p = ''text'') (parts out) \<noteq> []
           \<and> trim ?msg \<noteq> []
        then (case fst (detectKeywords new_RegExp config ?msg []) of
                Some m \<Rightarrow> out\<lparr>parts := parts out @ [nudge_part m now input out]\<rparr>
              | None \<Rightarrow> out)
        else out)"
    by (simp add: d split: option.splits)
  have ids: "t \<noteq> t' \<or> n \<noteq> n'
             \<longrightarrow> ''perplexity-'' @ type_name t @ ''-nudge-'' @ show_nat n
                 \<noteq> ''perplexity-'' @ type_name t' @ ''-nudge-'' @ show_nat n'"
    by (cases t; cases t') (auto simp: type_name_def dest: show_nat_inj)
  from res out' ids show ?thesis
    by (simp add: nudge_part_def nudge_text_def split: option.splits)
qed

theorem hook_appends_one_nudge_witness:
  "parts (fst (snd (chat_message example_RegExp example_config False 42 example_input
                      (example_output ''deep dive'') [])))
     = [user_part ''deep dive'',
        \<lparr>part_id = ''perplexity-research-nudge-42'', part_sessionID = ''ses_1'',
         part_messageID = ''msg_1'', part_type = ''text'', part_text = getResearchNudge,
         part_synthetic = True\<rparr>]
   \<and> parts (fst (snd (chat_message example_RegExp example_config False 42 example_input
                        (example_output ''hello'') [])))
     = [user_part ''hello'']
   \<and> search \<noteq> research
   \<and> ''perplexity-'' @ type_name search @ ''-nudge-'' @ show_nat 42
       \<noteq> ''perplexity-'' @ type_name research @ ''-nudge-'' @ show_nat 42"
proof -
  have c: "isConfigured example_config"
    by (simp add: isConfigured_def example_config_def)
  have t: "filter (\<lambda>p. part_type p = ''text'') (parts (example_output s)) = [user_part s]" for s
    by (simp add: example_output_def user_part_def)
  have b1: "trim ''deep dive'' \<noteq> []" by code_simp
  have b2: "trim ''hello'' \<noteq> []" by code_simp
  have d1: "fst (detectKeywords example_RegExp example_config ''deep dive'' [])
              = Some \<lparr>type = research, matchedText = ''deep dive''\<rparr>"
    by code_simp
  have d2: "fst (detectKeywords example_RegExp example_config ''hello'' []) = None"
    by code_simp
  have n: "show_nat 42 = ''42''" by code_simp
  from hook_appends_one_nudge
         [where new_RegExp = example_RegExp and config = example_config and DEBUG = False
            and now = 42 and input = example_input and out = "example_output ''deep dive''"
            and con = "[]" and t = search and t' = research and n = 42 and n' = 42]
       hook_appends_one_nudge
         [where new_RegExp = example_RegExp and config = example_config and DEBUG = False
            and now = 42 and input = example_input and out = "example_output ''hello''"
            and con = "[]" and t = search and t' = research and n = 42 and n' = 42]
       c b1 b2 d1 d2
  show ?thesis
    by (simp add: t n user_part_def type_name_def example_input_def example_output_def)
qed

text \<open>
  Claim C4 as it is worded fails in two places. The new segment is not uniquely
  identified: called a second time at the same clock reading, on the output of the first
  call, the handler appends a second nudge with the identifier of the first. And a match
  of the detector does not always append: on a message of one blank, which the custom
  pattern with the empty text matches, the handler returns before it asks the detector.
\<close>

theorem nudge_identifier_repeats_counterexample:
  "map part_id
     (parts (fst (snd (chat_message example_RegExp example_config False 42 example_input
                         (fst (snd (chat_message example_RegExp example_config False 42
                                      example_input (example_output ''deep dive'') [])))
                         []))))
     = [''prt_1'', ''perplexity-research-nudge-42'', ''perplexity-research-nudge-42'']
   \<and> fst (detectKeywords example_RegExp empty_pattern_config '' '' [])
       = Some \<lparr>type = search, matchedText = []\<rparr>
   \<and> parts (fst (snd (chat_message example_RegExp empty_pattern_config False 42 example_input
                        (example_output '' '') [])))
       = [user_part '' '']"
  by code_simp

section \<open>Properties of the configuration\<close>

text \<open>
  Claim C7, as amended. The API key of the configuration file, when it is set and not
  empty, is the one used, whatever the environment holds; the environment variable
  \<^verbatim>\<open>PERPLEXITY_API_KEY\<close> is used only when the file gives no key or an empty one.
  The configuration is built from the file and the environment once, by \<open>module_config\<close>.
\<close>

theorem file_api_key_wins:
  "(file_apiKey fileConfig = Some k \<and> k \<noteq> [] \<longrightarrow> apiKey (loadConfig fileConfig env) = k)
   \<and> ((file_apiKey fileConfig = None \<or> file_apiKey fileConfig = Some [])
        \<and> env ''PERPLEXITY_API_KEY'' = Some v
      \<longrightarrow> apiKey (loadConfig fileConfig env) = v)
   \<and> module_config CONFIG_DIR JSON_parse fs env
       = loadConfig (fst (loadConfigFile CONFIG_DIR JSON_parse fs [])) env"
  by (auto simp: loadConfig_def js_or_def truthy_def or_default_def module_config_def)

theorem file_api_key_wins_witness:
  "file_apiKey example_file_config = Some ''pplx-file'' \<and> ''pplx-file'' \<noteq> []
   \<and> apiKey (loadConfig example_file_config example_env) = ''pplx-file''
   \<and> file_apiKey (example_file_config\<lparr>file_apiKey := None\<rparr>) = None
   \<and> example_env ''PERPLEXITY_API_KEY'' = Some ''pplx-env''
   \<and> apiKey (loadConfig (example_file_config\<lparr>file_apiKey := None\<rparr>) example_env) = ''pplx-env''"
  using file_api_key_wins [of example_file_config "''pplx-file''" example_env]
        file_api_key_wins [of "example_file_config\<lparr>file_apiKey := None\<rparr>" k example_env "''pplx-env''"]
  by (simp add: example_file_config_def example_env_def)

text \<open>
  Claim C7 as it is worded fails: with the key set in the file and in the environment,
  the value of the file is used, not that of the environment variable.
\<close>

theorem env_does_not_override_file_counterexample:
  "file_apiKey example_file_config = Some ''pplx-file''
   \<and> example_env ''PERPLEXITY_API_KEY'' = Some ''pplx-env''
   \<and> apiKey (loadConfig example_file_config example_env) \<noteq> ''pplx-env''"
  by (simp add: example_file_config_def example_env_def loadConfig_def js_or_def truthy_def
      or_default_def)

section \<open>Properties of the installer\<close>

text \<open>
  Two facts about the steps. \<open>createPerplexityConfig\<close> has no check for a file that is
  there: after the call the settings file holds the fixed settings for the given key,
  whatever it held. The sibling step \<open>addPluginToConfig\<close> has such a check: a host
  configuration that contains the plugin identifier is left as it is.
\<close>

lemma createPerplexityConfig_writes_always:
  "fst (snd (createPerplexityConfig dir key fs con)) (PERPLEXITY_CONFIG_PATH dir)
     = Some (JSON_stringify (JObject [(''apiKey'', JString key),
                                      (''keywords'', JObject [(''enabled'', JBool True)])]))"
  by (simp add: createPerplexityConfig_def)

lemma addPluginToConfig_already_registered:
  "fs configPath = Some content \<Longrightarrow> string_includes content ''perplexity-opencode''
   \<Longrightarrow> addPluginToConfig JSON_parse configPath fs con
       = (True, fs, con @ [Log [''  Plugin already registered in config'']])"
  by (simp add: addPluginToConfig_def)

text \<open>
  Claim C6. The claim asks that the settings file \<^verbatim>\<open>perplexity.json\<close> be written only
  if absent, so that running the installer again changes nothing. The code does not keep
  an existing file: on a file system where the settings file exists and the user has
  switched detection off in it, the step the installer runs whenever it has an API key,
  called with the very key of the file, replaces the file by the fixed settings, with
  detection on again. The sibling step on the same file system keeps the host
  configuration, which already names the plugin, as it is.
\<close>

theorem settings_file_overwritten:
  "example_fs example_settings_path
     = Some ''{ \"apiKey\": \"pplx-old\", \"keywords\": { \"enabled\": false } }''
   \<and> PERPLEXITY_CONFIG_PATH ''/home/u/.config/opencode'' = example_settings_path
   \<and> fst (snd (createPerplexityConfig ''/home/u/.config/opencode'' ''pplx-old'' example_fs []))
         example_settings_path
       = Some ''{\<newline>  \"apiKey\": \"pplx-old\",\<newline>  \"keywords\": {\<newline>    \"enabled\": true\<newline>  }\<newline>}''
   \<and> fst (snd (createPerplexityConfig ''/home/u/.config/opencode'' ''pplx-old'' example_fs []))
         example_settings_path
       \<noteq> example_fs example_settings_path
   \<and> fst (snd (addPluginToConfig example_JSON_parse example_host_path example_fs []))
         example_host_path
       = example_fs example_host_path"
  by code_simp

section \<open>Research phrases are detected\<close>

lemma canon_word: "is_word_char (canonicalize c) = is_word_char c"
proof -
  have "\<forall>c::char. is_word_char (canonicalize c) = is_word_char c" by code_simp
  then show ?thesis by simp
qed

lemma canon_space: "canonicalize c = canonicalize CHR '' '' \<Longrightarrow> c = CHR '' ''"
proof -
  have "\<forall>c::char. canonicalize c = canonicalize CHR '' '' \<longrightarrow> c = CHR '' ''" by code_simp
  then show "canonicalize c = canonicalize CHR '' '' \<Longrightarrow> c = CHR '' ''" by simp
qed

lemma canon_hyphen: "canonicalize c = canonicalize CHR ''-'' \<Longrightarrow> c = CHR ''-''"
proof -
  have "\<forall>c::char. canonicalize c = canonicalize CHR ''-'' \<longrightarrow> c = CHR ''-''" by code_simp
  then show "canonicalize c = canonicalize CHR ''-'' \<Longrightarrow> c = CHR ''-''" by simp
qed

lemma lit_match_variant:
  "map canonicalize x = map canonicalize w
   \<Longrightarrow> lit_match True w (pv, x @ rest) = [(if x = [] then pv else Some (last x), rest)]"
proof (induction w arbitrary: x pv)
  case Nil
  then show ?case by simp
next
  case (Cons c w)
  then obtain d x' where x: "x = d # x'" and d: "canonicalize d = canonicalize c"
    and x': "map canonicalize x' = map canonicalize w"
    by (cases x) auto
  from Cons.IH [OF x', of "Some d"] d show ?case
    by (simp add: x char_eq_def)
qed

lemma reach_Lit:
  "map canonicalize x = map canonicalize w \<Longrightarrow> x \<noteq> []
   \<Longrightarrow> (Some (last x), rest) \<in> set (ms (Lit w) True (pv, x @ rest))"
  by (simp add: lit_match_variant)

lemma reach_Seq:
  "s1 \<in> set (ms a ic s) \<Longrightarrow> s2 \<in> set (ms b ic s1) \<Longrightarrow> s2 \<in> set (ms (Seq a b) ic s)"
  by auto

lemma reach_alts:
  "r \<in> set rs \<Longrightarrow> s' \<in> set (ms r ic s) \<Longrightarrow> s' \<in> set (ms (alts rs) ic s)"
  by (induction rs rule: alts.induct) auto

lemma reach_WordB:
  "word_before s \<noteq> word_after s \<Longrightarrow> s \<in> set (ms WordB ic s)"
  by (simp add: assertion_def)

lemma iter_greedy_self: "s \<in> set (iter_greedy step n s)"
  by (cases n) simp_all

lemma reach_Plus_Space:
  "(Some CHR '' '', rest) \<in> set (ms (Plus Space) ic (pv, CHR '' '' # rest))"
  by (simp add: one_char_def is_space_def iter_greedy_self)

lemma reach_Opt_skip: "s \<in> set (ms (Opt a) ic s)"
  by simp

lemma reach_Opt_take:
  "s' \<in> set (ms a ic s) \<Longrightarrow> advanced s s' \<Longrightarrow> s' \<in> set (ms (Opt a) ic s)"
  by simp

lemma reach_Cls:
  "in_class ic cs c \<Longrightarrow> (Some c, rest) \<in> set (ms (Cls cs) ic (pv, c # rest))"
  by (simp add: one_char_def)

lemma variant_first_word_char:
  assumes "map canonicalize x = map canonicalize w" "w \<noteq> []" "is_word_char (hd w)"
  shows "x \<noteq> [] \<and> is_word_char (hd x)"
proof -
  from assms(1,2) have x: "x \<noteq> []" by auto
  with assms(1,2) have "canonicalize (hd x) = canonicalize (hd w)"
    by (metis hd_map)
  with assms(3) x show ?thesis
    by (metis canon_word)
qed

lemma variant_last_word_char:
  assumes "map canonicalize x = map canonicalize w" "w \<noteq> []" "is_word_char (last w)"
  shows "x \<noteq> [] \<and> is_word_char (last x)"
proof -
  from assms(1,2) have x: "x \<noteq> []" by auto
  with assms(1,2) have "canonicalize (last x) = canonicalize (last w)"
    by (metis last_map)
  with assms(3) x show ?thesis
    by (metis canon_word)
qed

lemma split_variant:
  assumes "map canonicalize p = map canonicalize (a @ b)"
  obtains x y where "p = x @ y" "map canonicalize x = map canonicalize a"
    "map canonicalize y = map canonicalize b"
  using assms by (auto simp: map_eq_append_conv)

lemma split_two_words:
  assumes "map canonicalize p = map canonicalize (w1 @ '' '' @ w2)"
  obtains x y where "p = x @ '' '' @ y" "map canonicalize x = map canonicalize w1"
    "map canonicalize y = map canonicalize w2"
proof -
  from assms obtain x r where p: "p = x @ r" and x: "map canonicalize x = map canonicalize w1"
    and r: "map canonicalize r = map canonicalize ('' '' @ w2)"
    by (rule split_variant)
  from r obtain c y where r': "r = c # y" and c: "canonicalize c = canonicalize CHR '' ''"
    and y: "map canonicalize y = map canonicalize w2"
    by (cases r) auto
  from c have "c = CHR '' ''" by (rule canon_space)
  with p r' x y that show thesis by simp
qed

text \<open>The common tail of the research patterns: white space, the second word, a word boundary.\<close>

lemma tail_reaches:
  assumes y: "map canonicalize y = map canonicalize w2" and w2: "w2 \<noteq> []" "is_word_char (last w2)"
    and mem: "Lit w2 \<in> set rs"
    and post: "\<not> word_char_after post"
  shows "(Some (last y), post)
           \<in> set (ms (Seq (Plus Space) (Seq (alts rs) WordB)) True (pv, '' '' @ y @ post))"
proof -
  from variant_last_word_char [OF y w2] have yn: "y \<noteq> []" and yl: "is_word_char (last y)"
    by simp_all
  have 1: "(Some CHR '' '', y @ post) \<in> set (ms (Plus Space) True (pv, '' '' @ y @ post))"
    using reach_Plus_Space [of "y @ post" True pv] by simp
  have 2: "(Some (last y), post) \<in> set (ms (alts rs) True (Some CHR '' '', y @ post))"
    using mem reach_Lit [OF y yn] by (rule reach_alts)
  have "word_before (Some (last y), post) \<noteq> word_after (Some (last y), post)"
    using yl post by (auto simp: word_before_def word_after_def word_char_after_def split: list.splits)
  then have 3: "(Some (last y), post) \<in> set (ms WordB True (Some (last y), post))"
    by (rule reach_WordB)
  from 1 2 3 show ?thesis
    by (blast intro: reach_Seq)
qed


lemma reach_seq_append:
  "hs \<noteq> [] \<Longrightarrow> ts \<noteq> [] \<Longrightarrow> s1 \<in> set (ms (seq hs) ic s) \<Longrightarrow> s2 \<in> set (ms (seq ts) ic s1)
   \<Longrightarrow> s2 \<in> set (ms (seq (hs @ ts)) ic s)"
proof (induction hs arbitrary: s rule: seq.induct)
  case 1
  then show ?case by simp
next
  case (2 r)
  then show ?case by (cases ts) auto
next
  case (3 r v va)
  from "3.prems"(3) obtain m where m: "m \<in> set (ms r ic s)" and s1: "s1 \<in> set (ms (seq (v # va)) ic m)"
    by auto
  from "3.IH" [OF _ "3.prems"(2) s1 "3.prems"(4)] have "s2 \<in> set (ms (seq ((v # va) @ ts)) ic m)"
    by simp
  with m show ?case by auto
qed

lemma pattern_reaches:
  assumes head: "(Some c, '' '' @ y @ post) \<in> set (ms (seq hs) True (pv, x @ '' '' @ y @ post))"
    and hs: "hs \<noteq> []"
    and y: "map canonicalize y = map canonicalize w2" and w2: "w2 \<noteq> []" "is_word_char (last w2)"
    and mem: "Lit w2 \<in> set rs"
    and post: "\<not> word_char_after post"
  shows "ms (seq (hs @ [Plus Space, alts rs, WordB])) True (pv, x @ '' '' @ y @ post) \<noteq> []"
proof -
  have "(Some (last y), post)
          \<in> set (ms (seq [Plus Space, alts rs, WordB]) True (Some c, '' '' @ y @ post))"
    using tail_reaches [OF y w2 mem post, of "Some c"] by simp
  with head hs have "(Some (last y), post)
          \<in> set (ms (seq (hs @ [Plus Space, alts rs, WordB])) True (pv, x @ '' '' @ y @ post))"
    by (intro reach_seq_append) simp_all
  then show ?thesis by auto
qed

lemma head_word:
  assumes x: "map canonicalize x = map canonicalize w" and w: "w \<noteq> []" "is_word_char (hd w)"
    and start: "\<not> word_before (pv, x @ rest)"
  shows "(Some (last x), rest) \<in> set (ms (Seq WordB (Lit w)) True (pv, x @ rest))"
proof -
  from variant_first_word_char [OF x w] have xn: "x \<noteq> []" and xh: "is_word_char (hd x)"
    by simp_all
  then have "word_after (pv, x @ rest)"
    by (cases x) (simp_all add: word_after_def)
  with start have "(pv, x @ rest) \<in> set (ms WordB True (pv, x @ rest))"
    by (intro reach_WordB) simp
  moreover have "(Some (last x), rest) \<in> set (ms (Lit w) True (pv, x @ rest))"
    using x xn by (rule reach_Lit)
  ultimately show ?thesis by (rule reach_Seq)
qed

lemma word_before_append:
  "x \<noteq> [] \<Longrightarrow> word_before (pv, x @ rest) = word_before (pv, x @ rest')"
  by (simp add: word_before_def)

lemma exec_from_finds:
  "ms r ic (if pre = [] then p0 else Some (last pre), rest) \<noteq> []
   \<Longrightarrow> exec_from r ic p0 (pre @ rest) \<noteq> None"
proof (induction pre arbitrary: p0)
  case Nil
  then show ?case by (cases rest) (auto split: list.splits)
next
  case (Cons c pre)
  have "ms r ic (if pre = [] then Some c else Some (last pre), rest) \<noteq> []"
    using Cons.prems by (simp split: if_splits)
  from Cons.IH [OF this] show ?case
    by (auto split: list.splits)
qed

lemma research_phrase_matches:
  assumes row: "(firsts, seconds) \<in> set research_words" "f \<in> set firsts" "s \<in> set seconds"
    and p: "map canonicalize p = map canonicalize (f @ '' '' @ s)"
    and start: "\<not> word_before (pv, p @ post)"
    and post: "\<not> word_char_after post"
  shows "\<exists>r \<in> set RESEARCH_PATTERNS. ms r True (pv, p @ post) \<noteq> []"
proof -
  from p obtain x y where pxy: "p = x @ '' '' @ y"
    and x: "map canonicalize x = map canonicalize f"
    and y: "map canonicalize y = map canonicalize s"
    by (rule split_two_words)
  have start': "\<not> word_before (pv, x @ rest)" for rest
    using start by (simp add: word_before_def)
  from row consider
      (deep) "f = ''deep''" "s \<in> set [''dive'', ''research'', ''analysis'']"
    | (comprehensive) "f = ''comprehensive''" "s \<in> set [''search'', ''research'', ''analysis'']"
    | (thorough) "f = ''thorough''" "s \<in> set [''research'', ''investigate'', ''search'']"
    | (thoroughly) "f = ''thoroughly''" "s \<in> set [''research'', ''investigate'', ''search'']"
    | (in_hyphen) "f = ''in-depth''" "s \<in> set [''research'', ''analysis'']"
    | (in_space) "f = ''in depth''" "s \<in> set [''research'', ''analysis'']"
    | (detailed) "f = ''detailed''" "s \<in> set [''research'', ''analysis'', ''report'']"
    by (auto simp: research_words_def)
  then show ?thesis
  proof cases
    case deep
    have h: "(Some (last x), '' '' @ y @ post)
               \<in> set (ms (seq [WordB, Lit ''deep'']) True (pv, x @ '' '' @ y @ post))"
      using head_word [OF x [unfolded deep(1)] _ _ start'] by (simp add: is_word_char_def word_chars_def)
    have s: "s \<noteq> []" "is_word_char (last s)"
      "Lit s \<in> set [Lit ''dive'', Lit ''research'', Lit ''analysis'']"
      using deep(2) by (auto simp: is_word_char_def word_chars_def)
    from pattern_reaches [OF h _ y s post]
    have "ms (seq [WordB, Lit ''deep'', Plus Space,
                   alts [Lit ''dive'', Lit ''research'', Lit ''analysis''], WordB]) True
            (pv, p @ post) \<noteq> []"
      by (simp add: pxy del: seq.simps alts.simps ms.simps)
    then show ?thesis
      by (auto simp: RESEARCH_PATTERNS_def simp del: seq.simps alts.simps ms.simps)
  next
    case comprehensive
    have h: "(Some (last x), '' '' @ y @ post)
               \<in> set (ms (seq [WordB, Lit ''comprehensive'']) True (pv, x @ '' '' @ y @ post))"
      using head_word [OF x [unfolded comprehensive(1)] _ _ start']
      by (simp add: is_word_char_def word_chars_def)
    have s: "s \<noteq> []" "is_word_char (last s)"
      "Lit s \<in> set [Lit ''search'', Lit ''research'', Lit ''analysis'']"
      using comprehensive(2) by (auto simp: is_word_char_def word_chars_def)
    from pattern_reaches [OF h _ y s post]
    have "ms (seq [WordB, Lit ''comprehensive'', Plus Space,
                   alts [Lit ''search'', Lit ''research'', Lit ''analysis''], WordB]) True
            (pv, p @ post) \<noteq> []"
      by (simp add: pxy del: seq.simps alts.simps ms.simps)
    then show ?thesis
      by (auto simp: RESEARCH_PATTERNS_def simp del: seq.simps alts.simps ms.simps)
  next
    case thorough
    have h1: "(Some (last x), '' '' @ y @ post)
               \<in> set (ms (Seq WordB (Lit ''thorough'')) True (pv, x @ '' '' @ y @ post))"
      using head_word [OF x [unfolded thorough(1)] _ _ start']
      by (simp add: is_word_char_def word_chars_def)
    have "(Some (last x), '' '' @ y @ post)
            \<in> set (ms (Opt (Lit ''ly'')) True (Some (last x), '' '' @ y @ post))"
      by (rule reach_Opt_skip)
    with h1 have h: "(Some (last x), '' '' @ y @ post)
               \<in> set (ms (seq [WordB, Lit ''thorough'', Opt (Lit ''ly'')]) True
                        (pv, x @ '' '' @ y @ post))"
      by auto
    have s: "s \<noteq> []" "is_word_char (last s)"
      "Lit s \<in> set [Lit ''research'', Lit ''investigate'', Lit ''search'']"
      using thorough(2) by (auto simp: is_word_char_def word_chars_def)
    from pattern_reaches [OF h _ y s post]
    have "ms (seq [WordB, Lit ''thorough'', Opt (Lit ''ly''), Plus Space,
                   alts [Lit ''research'', Lit ''investigate'', Lit ''search''], WordB]) True
            (pv, p @ post) \<noteq> []"
      by (simp add: pxy del: seq.simps alts.simps ms.simps)
    then show ?thesis
      by (auto simp: RESEARCH_PATTERNS_def simp del: seq.simps alts.simps ms.simps)
  next
    case thoroughly
    from x thoroughly(1) have "map canonicalize x = map canonicalize (''thorough'' @ ''ly'')"
      by simp
    then obtain x1 x2 where x12: "x = x1 @ x2"
      and x1: "map canonicalize x1 = map canonicalize ''thorough''"
      and x2: "map canonicalize x2 = map canonicalize ''ly''"
      by (rule split_variant)
    from x1 have x1n: "x1 \<noteq> []" by auto
    from x2 have x2n: "x2 \<noteq> []" by auto
    have "\<not> word_before (pv, x1 @ x2 @ '' '' @ y @ post)"
      using start' [of "'' '' @ y @ post"] by (simp add: x12)
    from head_word [OF x1 _ _ this]
    have h1: "(Some (last x1), x2 @ '' '' @ y @ post)
               \<in> set (ms (Seq WordB (Lit ''thorough'')) True (pv, x @ '' '' @ y @ post))"
      by (simp add: x12 is_word_char_def word_chars_def)
    have "(Some (last x2), '' '' @ y @ post)
            \<in> set (ms (Lit ''ly'') True (Some (last x1), x2 @ '' '' @ y @ post))"
      using x2 x2n by (rule reach_Lit)
    then have "(Some (last x2), '' '' @ y @ post)
            \<in> set (ms (Opt (Lit ''ly'')) True (Some (last x1), x2 @ '' '' @ y @ post))"
      using x2n by (intro reach_Opt_take) (simp_all add: advanced_def)
    with h1 have h: "(Some (last x2), '' '' @ y @ post)
               \<in> set (ms (seq [WordB, Lit ''thorough'', Opt (Lit ''ly'')]) True
                        (pv, x @ '' '' @ y @ post))"
      by (auto simp del: ms.simps(1,12) intro: reach_Seq)
    have s: "s \<noteq> []" "is_word_char (last s)"
      "Lit s \<in> set [Lit ''research'', Lit ''investigate'', Lit ''search'']"
      using thoroughly(2) by (auto simp: is_word_char_def word_chars_def)
    from pattern_reaches [OF h _ y s post]
    have "ms (seq [WordB, Lit ''thorough'', Opt (Lit ''ly''), Plus Space,
                   alts [Lit ''research'', Lit ''investigate'', Lit ''search''], WordB]) True
            (pv, p @ post) \<noteq> []"
      by (simp add: pxy del: seq.simps alts.simps ms.simps)
    then show ?thesis
      by (auto simp: RESEARCH_PATTERNS_def simp del: seq.simps alts.simps ms.simps)
  next
    case in_hyphen
    from x in_hyphen(1) have "map canonicalize x = map canonicalize (''in'' @ ''-depth'')"
      by simp
    then obtain x1 r where x1r: "x = x1 @ r"
      and x1: "map canonicalize x1 = map canonicalize ''in''"
      and r: "map canonicalize r = map canonicalize ''-depth''"
      by (rule split_variant)
    from r obtain c x2 where r': "r = c # x2" and c: "canonicalize c = canonicalize CHR ''-''"
      and x2: "map canonicalize x2 = map canonicalize ''depth''"
      by (cases r) auto
    from c have c': "c = CHR ''-''" by (rule canon_hyphen)
    from x2 have x2n: "x2 \<noteq> []" by auto
    have "\<not> word_before (pv, x1 @ c # x2 @ '' '' @ y @ post)"
      using start' [of "'' '' @ y @ post"] by (simp add: x1r r')
    from head_word [OF x1 _ _ this]
    have h1: "(Some (last x1), c # x2 @ '' '' @ y @ post)
               \<in> set (ms (Seq WordB (Lit ''in'')) True (pv, x @ '' '' @ y @ post))"
      by (simp add: x1r r' is_word_char_def word_chars_def)
    have h2: "(Some c, x2 @ '' '' @ y @ post)
            \<in> set (ms (Cls ''- '') True (Some (last x1), c # x2 @ '' '' @ y @ post))"
      by (rule reach_Cls) (simp add: in_class_def char_eq_def c')
    have h3: "(Some (last x2), '' '' @ y @ post)
            \<in> set (ms (Lit ''depth'') True (Some c, x2 @ '' '' @ y @ post))"
      using x2 x2n by (rule reach_Lit)
    from h1 h2 h3 have h: "(Some (last x2), '' '' @ y @ post)
               \<in> set (ms (seq [WordB, Lit ''in'', Cls ''- '', Lit ''depth'']) True
                        (pv, x @ '' '' @ y @ post))"
      by (auto simp del: ms.simps(1,2) intro: reach_Seq)
    have s: "s \<noteq> []" "is_word_char (last s)" "Lit s \<in> set [Lit ''research'', Lit ''analysis'']"
      using in_hyphen(2) by (auto simp: is_word_char_def word_chars_def)
    from pattern_reaches [OF h _ y s post]
    have "ms (seq [WordB, Lit ''in'', Cls ''- '', Lit ''depth'', Plus Space,
                   alts [Lit ''research'', Lit ''analysis''], WordB]) True
            (pv, p @ post) \<noteq> []"
      by (simp add: pxy del: seq.simps alts.simps ms.simps)
    then show ?thesis
      by (auto simp: RESEARCH_PATTERNS_def simp del: seq.simps alts.simps ms.simps)
  next
    case in_space
    from x in_space(1) have "map canonicalize x = map canonicalize (''in'' @ '' depth'')"
      by simp
    then obtain x1 r where x1r: "x = x1 @ r"
      and x1: "map canonicalize x1 = map canonicalize ''in''"
      and r: "map canonicalize r = map canonicalize '' depth''"
      by (rule split_variant)
    from r obtain c x2 where r': "r = c # x2" and c: "canonicalize c = canonicalize CHR '' ''"
      and x2: "map canonicalize x2 = map canonicalize ''depth''"
      by (cases r) auto
    from c have c': "c = CHR '' ''" by (rule canon_space)
    from x2 have x2n: "x2 \<noteq> []" by auto
    have "\<not> word_before (pv, x1 @ c # x2 @ '' '' @ y @ post)"
      using start' [of "'' '' @ y @ post"] by (simp add: x1r r')
    from head_word [OF x1 _ _ this]
    have h1: "(Some (last x1), c # x2 @ '' '' @ y @ post)
               \<in> set (ms (Seq WordB (Lit ''in'')) True (pv, x @ '' '' @ y @ post))"
      by (simp add: x1r r' is_word_char_def word_chars_def)
    have h2: "(Some c, x2 @ '' '' @ y @ post)
            \<in> set (ms (Cls ''- '') True (Some (last x1), c # x2 @ '' '' @ y @ post))"
      by (rule reach_Cls) (simp add: in_class_def char_eq_def c')
    have h3: "(Some (last x2), '' '' @ y @ post)
            \<in> set (ms (Lit ''depth'') True (Some c, x2 @ '' '' @ y @ post))"
      using x2 x2n by (rule reach_Lit)
    from h1 h2 h3 have h: "(Some (last x2), '' '' @ y @ post)
               \<in> set (ms (seq [WordB, Lit ''in'', Cls ''- '', Lit ''depth'']) True
                        (pv, x @ '' '' @ y @ post))"
      by (auto simp del: ms.simps(1,2) intro: reach_Seq)
    have s: "s \<noteq> []" "is_word_char (last s)" "Lit s \<in> set [Lit ''research'', Lit ''analysis'']"
      using in_space(2) by (auto simp: is_word_char_def word_chars_def)
    from pattern_reaches [OF h _ y s post]
    have "ms (seq [WordB, Lit ''in'', Cls ''- '', Lit ''depth'', Plus Space,
                   alts [Lit ''research'', Lit ''analysis''], WordB]) True
            (pv, p @ post) \<noteq> []"
      by (simp add: pxy del: seq.simps alts.simps ms.simps)
    then show ?thesis
      by (auto simp: RESEARCH_PATTERNS_def simp del: seq.simps alts.simps ms.simps)
  next
    case detailed
    have h: "(Some (last x), '' '' @ y @ post)
               \<in> set (ms (seq [WordB, Lit ''detailed'']) True (pv, x @ '' '' @ y @ post))"
      using head_word [OF x [unfolded detailed(1)] _ _ start']
      by (simp add: is_word_char_def word_chars_def)
    have s: "s \<noteq> []" "is_word_char (last s)"
      "Lit s \<in> set [Lit ''research'', Lit ''analysis'', Lit ''report'']"
      using detailed(2) by (auto simp: is_word_char_def word_chars_def)
    from pattern_reaches [OF h _ y s post]
    have "ms (seq [WordB, Lit ''detailed'', Plus Space,
                   alts [Lit ''research'', Lit ''analysis'', Lit ''report''], WordB]) True
            (pv, p @ post) \<noteq> []"
      by (simp add: pxy del: seq.simps alts.simps ms.simps)
    then show ?thesis
      by (auto simp: RESEARCH_PATTERNS_def simp del: seq.simps alts.simps ms.simps)
  qed
qed


lemma research_phrases_rows:
  "phrase \<in> set research_phrases
   \<Longrightarrow> \<exists>firsts seconds f s. (firsts, seconds) \<in> set research_words \<and> f \<in> set firsts
         \<and> s \<in> set seconds \<and> phrase = f @ '' '' @ s"
  by (fastforce simp: research_phrases_def)

text \<open>
  Claim C9, as amended. With detection enabled, let the message without its code spans
  contain one of the fixed research-trigger phrases, in any letter casing, as whole words:
  not directly preceded and not directly followed by a letter, a digit or an underscore.
  Then the detector returns a match of category research.
\<close>

theorem research_phrase_detected:
  assumes "enabled (config_keywords config)"
    and "removeCodeBlocks message = pre @ p @ post"
    and "phrase \<in> set research_phrases"
    and "in_any_casing p phrase"
    and "\<not> word_char_before pre"
    and "\<not> word_char_after post"
  shows "\<exists>t. fst (detectKeywords new_RegExp config message con)
             = Some \<lparr>type = research, matchedText = t\<rparr>"
proof -
  from assms(3) obtain firsts seconds f s where
    row: "(firsts, seconds) \<in> set research_words" "f \<in> set firsts" "s \<in> set seconds"
    and phrase: "phrase = f @ '' '' @ s"
    using research_phrases_rows by blast
  let ?pv = "if pre = [] then None else Some (last pre)"
  have p: "map canonicalize p = map canonicalize (f @ '' '' @ s)"
    using assms(4) by (simp add: in_any_casing_def phrase)
  have start: "\<not> word_before (?pv, p @ post)"
    using assms(5) by (auto simp: word_before_def word_char_before_def)
  from research_phrase_matches [OF row p start assms(6)]
  obtain r where r: "r \<in> set RESEARCH_PATTERNS" and m: "ms r True (?pv, p @ post) \<noteq> []"
    by blast
  from exec_from_finds [OF m] have "match_i r (removeCodeBlocks message) \<noteq> None"
    by (simp add: match_i_def assms(2))
  with r have "\<exists>r \<in> set RESEARCH_PATTERNS. match_i r (removeCodeBlocks message) \<noteq> None"
    by blast
  then show ?thesis
    using detect_research_iff [OF assms(1), of new_RegExp message con] by simp
qed

theorem research_phrase_detected_witness:
  "enabled (config_keywords example_config)
   \<and> removeCodeBlocks ''Please do a DEEP Dive on quantum computing''
       = ''Please do a '' @ ''DEEP Dive'' @ '' on quantum computing''
   \<and> ''deep dive'' \<in> set research_phrases
   \<and> in_any_casing ''DEEP Dive'' ''deep dive''
   \<and> \<not> word_char_before ''Please do a ''
   \<and> \<not> word_char_after '' on quantum computing''
   \<and> fst (detectKeywords example_RegExp example_config
            ''Please do a DEEP Dive on quantum computing'' [])
       = Some \<lparr>type = research, matchedText = ''DEEP Dive''\<rparr>"
proof -
  have e: "enabled (config_keywords example_config)"
    by (simp add: example_config_def)
  have c: "removeCodeBlocks ''Please do a DEEP Dive on quantum computing''
             = ''Please do a '' @ ''DEEP Dive'' @ '' on quantum computing''"
    by code_simp
  have ph: "''deep dive'' \<in> set research_phrases" by code_simp
  have v: "in_any_casing ''DEEP Dive'' ''deep dive''" by code_simp
  have b: "\<not> word_char_before ''Please do a ''" by code_simp
  have a: "\<not> word_char_after '' on quantum computing''" by code_simp
  have r: "fst (detectKeywords example_RegExp example_config
                  ''Please do a DEEP Dive on quantum computing'' [])
             = Some \<lparr>type = research, matchedText = ''DEEP Dive''\<rparr>"
    by code_simp
  from research_phrase_detected
         [where config = example_config and new_RegExp = example_RegExp and con = "[]",
          OF e c ph v b a]
       e c ph v b a r
  show ?thesis by simp
qed

text \<open>
  Claim C9 as it is worded fails: a message that contains the phrase \<^verbatim>\<open>deep dive\<close>
  between underscores, outside any code span, gets no match at all, since the underscore
  is a word character and the pattern asks for a word boundary.
\<close>

theorem research_phrase_inside_word_counterexample:
  "enabled (config_keywords example_config)
   \<and> removeCodeBlocks ''a _deep dive_ please'' = ''a _'' @ ''deep dive'' @ ''_ please''
   \<and> ''deep dive'' \<in> set research_phrases
   \<and> fst (detectKeywords example_RegExp example_config ''a _deep dive_ please'' []) = None"
  by code_simp

section \<open>Code spans are removed before matching\<close>

lemma lit_match_exact:
  "lit_match False w (pv, s) =
     (if take (length w) s = w then [(if w = [] then pv else Some (last w), drop (length w) s)]
      else [])"
proof (induction w arbitrary: pv s)
  case Nil
  then show ?case by simp
next
  case (Cons c w)
  show ?case
  proof (cases s)
    case Nil
    then show ?thesis by simp
  next
    case (Cons x xs)
    with Cons.IH [of "Some x" xs] show ?thesis
      by (auto simp: char_eq_def)
  qed
qed

lemma ms_Lit_fun: "ms (Lit w) ic = lit_match ic w"
  by (rule ext) simp

lemma lit_fence_hit: "lit_match False ''```'' (pv, ''```'' @ rest) = [(Some CHR 0x60, rest)]"
  by (simp add: char_eq_def)

lemma lit_fence_miss: "take 3 s \<noteq> ''```'' \<Longrightarrow> lit_match False ''```'' (pv, s) = []"
  using lit_match_exact [of "''```''" pv s] by (simp add: numeral_3_eq_3)

lemma lit_tick_hit: "lit_match False ''`'' (pv, CHR 0x60 # rest) = [(Some CHR 0x60, rest)]"
  by (simp add: char_eq_def)

lemma lit_tick_miss: "c \<noteq> CHR 0x60 \<Longrightarrow> lit_match False ''`'' (pv, c # rest) = []"
  by (simp add: char_eq_def)

lemma lit_tick_empty: "lit_match False ''`'' (pv, []) = []"
  by simp

lemma remove_all_keep:
  "ms r ic (pv, c # cs) = [] \<Longrightarrow> remove_all r ic pv (c # cs) = c # remove_all r ic (Some c) cs"
  by (simp add: remove_all.simps)

lemma remove_all_skip:
  "ms r ic (pv, c # cs) = (pv', rest) # others \<Longrightarrow> length rest < Suc (length cs)
   \<Longrightarrow> remove_all r ic pv (c # cs) = remove_all r ic pv' rest"
  by (simp add: remove_all.simps)

subsection \<open>The first pass: fenced blocks\<close>

lemma fenced_no_match:
  "take 3 s \<noteq> ''```'' \<Longrightarrow> ms fenced_block False (pv, s) = []"
  by (simp add: fenced_block_def lit_fence_miss del: lit_match.simps)

lemma lazy_any_Cons:
  "iter_lazy (ms AnyChar ic) (length (c # cs)) (pv, c # cs)
     = (pv, c # cs) # iter_lazy (ms AnyChar ic) (length cs) (Some c, cs)"
  by (simp add: one_char_def advanced_def)

lemma fence_close:
  "\<not> string_includes (body @ ''``'') ''```''
   \<Longrightarrow> \<exists>others. concat (map (lit_match False ''```'')
                 (iter_lazy (ms AnyChar False) (length (body @ ''```'' @ rest))
                    (pv, body @ ''```'' @ rest)))
             = (Some CHR 0x60, rest) # others"
proof (induction body arbitrary: pv)
  case Nil
  have "iter_lazy (ms AnyChar False) (length ([] @ ''```'' @ rest)) (pv, [] @ ''```'' @ rest)
          = (pv, ''```'' @ rest)
            # iter_lazy (ms AnyChar False) (length (''``'' @ rest)) (Some CHR 0x60, ''``'' @ rest)"
    using lazy_any_Cons [of False "CHR 0x60" "''``'' @ rest" pv]
    by (simp del: ms.simps iter_lazy.simps)
  then show ?case
    by (simp only: list.map concat.simps lit_fence_hit) simp
next
  case (Cons c body)
  from Cons.prems have here: "take 3 (c # body @ ''``'') \<noteq> ''```''"
    and later: "\<not> string_includes (body @ ''``'') ''```''"
    by (simp_all add: numeral_3_eq_3)
  have "take 3 (c # body @ ''```'' @ rest) = take 3 (c # body @ ''``'')"
    by (cases body; cases "tl body"; simp add: numeral_3_eq_3)
  with here have no: "lit_match False ''```'' (pv, c # body @ ''```'' @ rest) = []"
    by (intro lit_fence_miss) simp
  from Cons.IH [OF later, of "Some c"] obtain others where
    ih: "concat (map (lit_match False ''```'')
       (iter_lazy (ms AnyChar False) (length (body @ ''```'' @ rest))
          (Some c, body @ ''```'' @ rest)))
     = (Some CHR 0x60, rest) # others" ..
  have step: "iter_lazy (ms AnyChar False) (length ((c # body) @ ''```'' @ rest))
                   (pv, (c # body) @ ''```'' @ rest)
        = (pv, c # body @ ''```'' @ rest)
          # iter_lazy (ms AnyChar False) (length (body @ ''```'' @ rest))
              (Some c, body @ ''```'' @ rest)"
    using lazy_any_Cons [of False c "body @ ''```'' @ rest" pv]
    by (simp del: ms.simps iter_lazy.simps)
  show ?case
    by (simp only: step list.map concat.simps no ih) simp
qed

lemma fenced_match:
  assumes "\<not> string_includes (body @ ''``'') ''```''"
  shows "\<exists>others. ms fenced_block False (pv, ''```'' @ body @ ''```'' @ rest)
                 = (Some CHR 0x60, rest) # others"
proof -
  from fence_close [OF assms, of rest "Some CHR 0x60"] obtain others where
    "concat (map (lit_match False ''```'')
       (iter_lazy (ms AnyChar False) (length (body @ ''```'' @ rest))
          (Some CHR 0x60, body @ ''```'' @ rest)))
     = (Some CHR 0x60, rest) # others" ..
  then have "ms fenced_block False (pv, ''```'' @ body @ ''```'' @ rest)
               = (Some CHR 0x60, rest) # others"
    using lit_fence_hit [of pv "body @ ''```'' @ rest"]
    by (simp add: fenced_block_def ms_Lit_fun del: lit_match.simps iter_lazy.simps)
  then show ?thesis ..
qed


lemma pass1_plain:
  "CHR 0x60 \<notin> set t
   \<Longrightarrow> remove_all fenced_block False pv (t @ rest)
       = t @ remove_all fenced_block False (if t = [] then pv else Some (last t)) rest"
proof (induction t arbitrary: pv)
  case Nil
  then show ?case by simp
next
  case (Cons c t)
  then have "c \<noteq> CHR 0x60" by auto
  then have "take 3 (c # t @ rest) \<noteq> ''```''"
    by (simp add: numeral_3_eq_3)
  then have "ms fenced_block False (pv, c # t @ rest) = []"
    by (rule fenced_no_match)
  then have "remove_all fenced_block False pv ((c # t) @ rest)
               = c # remove_all fenced_block False (Some c) (t @ rest)"
    by (simp only: append_Cons remove_all_keep)
  with Cons show ?case by simp
qed

lemma pass1_tick:
  "take 2 rest \<noteq> ''``''
   \<Longrightarrow> remove_all fenced_block False pv (CHR 0x60 # rest)
       = CHR 0x60 # remove_all fenced_block False (Some CHR 0x60) rest"
proof -
  assume "take 2 rest \<noteq> ''``''"
  then have "take 3 (CHR 0x60 # rest) \<noteq> ''```''"
    by (cases rest; cases "tl rest"; simp add: numeral_3_eq_3 numeral_2_eq_2)
  then have "ms fenced_block False (pv, CHR 0x60 # rest) = []"
    by (rule fenced_no_match)
  then show ?thesis by (rule remove_all_keep)
qed

lemma pass1_inline:
  assumes "body \<noteq> []" "CHR 0x60 \<notin> set body" "take 2 rest \<noteq> ''``''"
  shows "remove_all fenced_block False pv (render (Inline body) @ rest)
           = render (Inline body) @ remove_all fenced_block False (Some CHR 0x60) rest"
proof -
  obtain c cs where body: "body = c # cs" using assms(1) by (cases body) auto
  with assms(2) have c: "c \<noteq> CHR 0x60" by auto
  have 1: "remove_all fenced_block False pv (CHR 0x60 # body @ CHR 0x60 # rest)
             = CHR 0x60 # remove_all fenced_block False (Some CHR 0x60) (body @ CHR 0x60 # rest)"
    by (rule pass1_tick) (simp add: body c numeral_2_eq_2)
  have 2: "remove_all fenced_block False (Some CHR 0x60) (body @ CHR 0x60 # rest)
             = body @ remove_all fenced_block False (Some (last body)) (CHR 0x60 # rest)"
    using pass1_plain [OF assms(2), of "Some CHR 0x60" "CHR 0x60 # rest"] assms(1) by simp
  have 3: "remove_all fenced_block False (Some (last body)) (CHR 0x60 # rest)
             = CHR 0x60 # remove_all fenced_block False (Some CHR 0x60) rest"
    using assms(3) by (rule pass1_tick)
  show ?thesis by (simp add: 1 2 3)
qed

lemma pass1_fenced:
  assumes "\<not> string_includes (body @ ''``'') ''```''"
  shows "remove_all fenced_block False pv (render (Fenced body) @ rest)
           = remove_all fenced_block False (Some CHR 0x60) rest"
proof -
  from fenced_match [OF assms, of pv rest] obtain others where
    m: "ms fenced_block False (pv, ''```'' @ body @ ''```'' @ rest) = (Some CHR 0x60, rest) # others" ..
  have "remove_all fenced_block False pv (CHR 0x60 # (''``'' @ body @ ''```'' @ rest))
          = remove_all fenced_block False (Some CHR 0x60) rest"
    by (rule remove_all_skip [where others = others]) (use m in simp_all)
  then show ?thesis by simp
qed

lemma starts_not_fenced:
  "well_formed segs \<Longrightarrow> \<not> starts_fenced segs \<Longrightarrow> take 2 (render_all segs) \<noteq> ''``''"
proof (cases segs)
  case Nil
  then show ?thesis by (simp add: render_all_def)
next
  case (Cons seg rest)
  assume wf: "well_formed segs" and nf: "\<not> starts_fenced segs"
  show ?thesis
  proof (cases seg)
    case (Plain t)
    with wf Cons obtain c cs where "t = c # cs" "c \<noteq> CHR 0x60"
      by (cases t) auto
    with Plain Cons show ?thesis by (simp add: render_all_def numeral_2_eq_2)
  next
    case (Inline body)
    with wf Cons obtain c cs where "body = c # cs" "c \<noteq> CHR 0x60"
      by (cases body) auto
    with Inline Cons show ?thesis by (simp add: render_all_def numeral_2_eq_2)
  next
    case (Fenced body)
    with nf Cons show ?thesis by simp
  qed
qed

lemma pass1:
  "well_formed segs
   \<Longrightarrow> remove_all fenced_block False pv (render_all segs)
       = render_all (filter (\<lambda>seg. \<not> is_fenced seg) segs)"
proof (induction segs arbitrary: pv)
  case Nil
  then show ?case by (simp add: render_all_def)
next
  case (Cons seg segs)
  show ?case
  proof (cases seg)
    case (Plain t)
    with Cons.prems have t: "CHR 0x60 \<notin> set t" and wf: "well_formed segs" by simp_all
    from pass1_plain [OF t, of pv "render_all segs"] Cons.IH [OF wf]
    show ?thesis by (simp add: Plain render_all_def is_fenced_def)
  next
    case (Inline body)
    with Cons.prems have b: "body \<noteq> []" "CHR 0x60 \<notin> set body"
      and nf: "\<not> starts_fenced segs" and wf: "well_formed segs" by simp_all
    from pass1_inline [OF b starts_not_fenced [OF wf nf], of pv] Cons.IH [OF wf]
    show ?thesis by (simp add: Inline render_all_def is_fenced_def)
  next
    case (Fenced body)
    with Cons.prems have b: "\<not> string_includes (body @ ''``'') ''```''"
      and wf: "well_formed segs" by simp_all
    from pass1_fenced [OF b, of pv "render_all segs"] Cons.IH [OF wf]
    show ?thesis by (simp add: Fenced render_all_def is_fenced_def)
  qed
qed


subsection \<open>The second pass: inline code\<close>

lemma inline_no_match:
  "c \<noteq> CHR 0x60 \<Longrightarrow> ms inline_code False (pv, c # cs) = []"
  by (simp add: inline_code_def lit_tick_miss del: lit_match.simps)

lemma not_tick_step:
  "ms (NCls ''`'') False (pv, c # cs) = (if c \<noteq> CHR 0x60 then [(Some c, cs)] else [])"
  by (auto simp: one_char_def in_class_def char_eq_def)

lemma greedy_body:
  "CHR 0x60 \<notin> set body \<Longrightarrow> length body \<le> n
   \<Longrightarrow> \<exists>others. iter_greedy (ms (NCls ''`'') False) n (pv, body @ CHR 0x60 # rest)
               = (if body = [] then pv else Some (last body), CHR 0x60 # rest) # others"
proof (induction body arbitrary: pv n)
  case Nil
  show ?case
    by (cases n) (simp_all add: not_tick_step del: ms.simps)
next
  case (Cons c body)
  from Cons.prems obtain m where n: "n = Suc m" and m: "length body \<le> m"
    by (cases n) auto
  from Cons.prems have c: "c \<noteq> CHR 0x60" and b: "CHR 0x60 \<notin> set body" by auto
  from Cons.IH [OF b m, of "Some c"] obtain others where
    ih: "iter_greedy (ms (NCls ''`'') False) m (Some c, body @ CHR 0x60 # rest)
           = (if body = [] then Some c else Some (last body), CHR 0x60 # rest) # others" ..
  have "iter_greedy (ms (NCls ''`'') False) n (pv, (c # body) @ CHR 0x60 # rest)
          = iter_greedy (ms (NCls ''`'') False) m (Some c, body @ CHR 0x60 # rest)
            @ [(pv, (c # body) @ CHR 0x60 # rest)]"
    by (simp add: n not_tick_step c advanced_def del: ms.simps)
  with ih show ?case by (simp del: ms.simps)
qed

lemma inline_match:
  assumes "body \<noteq> []" "CHR 0x60 \<notin> set body"
  shows "\<exists>others. ms inline_code False (pv, CHR 0x60 # body @ CHR 0x60 # rest)
                 = (Some CHR 0x60, rest) # others"
proof -
  obtain c cs where body: "body = c # cs" using assms(1) by (cases body) auto
  with assms(2) have c: "c \<noteq> CHR 0x60" and cs: "CHR 0x60 \<notin> set cs" by auto
  from greedy_body [OF cs, of "length (cs @ CHR 0x60 # rest)" "Some c" rest] obtain others where
    g: "iter_greedy (ms (NCls ''`'') False) (length (cs @ CHR 0x60 # rest))
          (Some c, cs @ CHR 0x60 # rest)
        = (if cs = [] then Some c else Some (last cs), CHR 0x60 # rest) # others"
    by auto
  have plus: "ms (Plus (NCls ''`'')) False (Some CHR 0x60, body @ CHR 0x60 # rest)
                = (if cs = [] then Some c else Some (last cs), CHR 0x60 # rest) # others"
    using g by (simp add: body not_tick_step c del: ms.simps(3) iter_greedy.simps)
  have "ms inline_code False (pv, CHR 0x60 # body @ CHR 0x60 # rest)
          = concat (map (lit_match False ''`'')
              (ms (Plus (NCls ''`'')) False (Some CHR 0x60, body @ CHR 0x60 # rest)))"
    by (simp add: inline_code_def lit_tick_hit ms_Lit_fun del: lit_match.simps ms.simps(3,14))
  also have "\<dots> = (Some CHR 0x60, rest) # concat (map (lit_match False ''`'') others)"
    by (simp only: plus list.map concat.simps lit_tick_hit) simp
  finally show ?thesis by blast
qed

lemma pass2_plain:
  "CHR 0x60 \<notin> set t
   \<Longrightarrow> remove_all inline_code False pv (t @ rest)
       = t @ remove_all inline_code False (if t = [] then pv else Some (last t)) rest"
proof (induction t arbitrary: pv)
  case Nil
  then show ?case by simp
next
  case (Cons c t)
  then have "c \<noteq> CHR 0x60" by auto
  then have "ms inline_code False (pv, c # t @ rest) = []"
    by (rule inline_no_match)
  then have "remove_all inline_code False pv ((c # t) @ rest)
               = c # remove_all inline_code False (Some c) (t @ rest)"
    by (simp only: append_Cons remove_all_keep)
  with Cons show ?case by simp
qed

lemma pass2_inline:
  assumes "body \<noteq> []" "CHR 0x60 \<notin> set body"
  shows "remove_all inline_code False pv (render (Inline body) @ rest)
           = remove_all inline_code False (Some CHR 0x60) rest"
proof -
  from inline_match [OF assms, of pv rest] obtain others where
    m: "ms inline_code False (pv, CHR 0x60 # body @ CHR 0x60 # rest) = (Some CHR 0x60, rest) # others" ..
  have "remove_all inline_code False pv (CHR 0x60 # (body @ CHR 0x60 # rest))
          = remove_all inline_code False (Some CHR 0x60) rest"
    by (rule remove_all_skip [where others = others]) (use m in simp_all)
  then show ?thesis by simp
qed

lemma pass2:
  "no_fenced segs \<Longrightarrow> remove_all inline_code False pv (render_all segs) = outside_text segs"
proof (induction segs arbitrary: pv)
  case Nil
  then show ?case by (simp add: render_all_def)
next
  case (Cons seg segs)
  show ?case
  proof (cases seg)
    case (Plain t)
    with Cons.prems have t: "CHR 0x60 \<notin> set t" and nf: "no_fenced segs" by simp_all
    from pass2_plain [OF t, of pv "render_all segs"] Cons.IH [OF nf]
    show ?thesis by (simp add: Plain render_all_def)
  next
    case (Inline body)
    with Cons.prems have b: "body \<noteq> []" "CHR 0x60 \<notin> set body" and nf: "no_fenced segs"
      by simp_all
    from pass2_inline [OF b, of pv "render_all segs"] Cons.IH [OF nf]
    show ?thesis by (simp add: Inline render_all_def)
  next
    case (Fenced body)
    with Cons.prems show ?thesis by simp
  qed
qed

lemma well_formed_filter:
  "well_formed segs \<Longrightarrow> no_fenced (filter (\<lambda>seg. \<not> is_fenced seg) segs)"
  by (induction segs rule: well_formed.induct) (simp_all add: is_fenced_def)

lemma outside_text_filter:
  "outside_text (filter (\<lambda>seg. \<not> is_fenced seg) segs) = outside_text segs"
  by (induction segs rule: outside_text.induct) (simp_all add: is_fenced_def)

lemma removeCodeBlocks_segments:
  "well_formed segs \<Longrightarrow> removeCodeBlocks (render_all segs) = outside_text segs"
  using pass1 [of segs None] pass2 [OF well_formed_filter, of segs None]
  by (simp add: removeCodeBlocks_def outside_text_filter)

lemma removeCodeBlocks_plain:
  assumes "CHR 0x60 \<notin> set t"
  shows "removeCodeBlocks t = t"
  using pass1_plain [OF assms, of None "[]"] pass2_plain [OF assms, of None "[]"]
  by (simp add: removeCodeBlocks_def)

lemma outside_text_no_tick: "well_formed segs \<Longrightarrow> CHR 0x60 \<notin> set (outside_text segs)"
  by (induction segs rule: well_formed.induct) simp_all

text \<open>
  Claim C2, as amended. Let a message be made of plain text without backticks, of inline
  code spans written with one backtick on each side (the body not empty and without
  backticks) and of fenced code blocks written with three backticks on each side (the
  body not closing the block early), where no fenced block follows an inline span
  directly. Then these spans are deleted before any pattern is tried: what the detector
  scans is the text outside the spans. So when the detector finds nothing in the text
  outside the spans (the only text that could trigger lies inside them), it returns no
  match for the message. The message \<^verbatim>\<open>use `search the web` in your code\<close> is the
  instance of the witness. Code spans of other forms are not covered.
\<close>

theorem code_spans_do_not_trigger:
  assumes "well_formed segs"
    and "fst (detectKeywords new_RegExp config (outside_text segs) con) = None"
  shows "removeCodeBlocks (render_all segs) = outside_text segs
         \<and> fst (detectKeywords new_RegExp config (render_all segs) con) = None"
proof -
  have 1: "removeCodeBlocks (render_all segs) = outside_text segs"
    using assms(1) by (rule removeCodeBlocks_segments)
  have 2: "removeCodeBlocks (outside_text segs) = outside_text segs"
    using outside_text_no_tick [OF assms(1)] by (rule removeCodeBlocks_plain)
  have "fst (detectKeywords new_RegExp config (render_all segs) con)
          = fst (detectKeywords new_RegExp config (outside_text segs) con)"
    by (simp only: detectKeywords_fst 1 2)
  with assms(2) 1 show ?thesis by simp
qed

theorem code_spans_do_not_trigger_witness:
  "well_formed [Plain ''use '', Inline ''search the web'', Plain '' in your code'']
   \<and> render_all [Plain ''use '', Inline ''search the web'', Plain '' in your code'']
       = ''use `search the web` in your code''
   \<and> outside_text [Plain ''use '', Inline ''search the web'', Plain '' in your code'']
       = ''use  in your code''
   \<and> fst (detectKeywords example_RegExp example_config ''use  in your code'' []) = None
   \<and> removeCodeBlocks ''use `search the web` in your code'' = ''use  in your code''
   \<and> fst (detectKeywords example_RegExp example_config
            ''use `search the web` in your code'' []) = None"
proof -
  let ?segs = "[Plain ''use '', Inline ''search the web'', Plain '' in your code'']"
  have w: "well_formed ?segs" by simp
  have r: "render_all ?segs = ''use `search the web` in your code''"
    by (simp add: render_all_def)
  have t: "outside_text ?segs = ''use  in your code''" by simp
  have d: "fst (detectKeywords example_RegExp example_config (outside_text ?segs) []) = None"
    unfolding t by code_simp
  from code_spans_do_not_trigger [OF w d] w d show ?thesis
    by (simp only: r t)
qed

text \<open>
  Claim C2 as it is worded fails: in the message below the only text that could trigger
  lies inside an inline code span, which a fenced code block follows directly. The first
  pass takes the closing backtick of the span for the start of a fence and deletes from
  there to the end, so the span is left open, its text stays, and the detector matches.
\<close>

theorem inline_span_before_fence_counterexample:
  "enabled (config_keywords example_config)
   \<and> render_all [Inline ''search the web'', Fenced ''x''] = ''`search the web````x```''
   \<and> outside_text [Inline ''search the web'', Fenced ''x''] = []
   \<and> fst (detectKeywords example_RegExp example_config [] []) = None
   \<and> \<not> well_formed [Inline ''search the web'', Fenced ''x'']
   \<and> removeCodeBlocks ''`search the web````x```'' = ''`search the web''
   \<and> fst (detectKeywords example_RegExp example_config ''`search the web````x```'' [])
       = Some \<lparr>type = search, matchedText = ''search the web''\<rparr>"
  by code_simp

end
